theory Spec2Isabelle
  imports Main "HOL-Library.AList" "HOL-Library.Word"
begin

section \<open>The NUMA zone ledger of pkg/noderesourcetopology/plugin.go\<close>

text \<open>
  A \<open>resource.Quantity\<close> is an exact signed amount. The plugin only uses \<open>IsZero\<close>,
  \<open>Cmp\<close>, \<open>Sub\<close> and the zero value \<open>resource.Quantity{}\<close>, so a quantity is modelled as
  an integer count of its smallest unit. The type is signed in the library, and so it is
  here: nothing in the plugin checks a sign. \<open>Sub\<close> is exact here. The library subtracts
  64-bit mantissas where it can and decimals of any size otherwise, which is exact but for
  one mantissa, \<open>-2^63\<close>, whose negation wraps.

  A quantity holds its value in the struct (int64 form) or in a decimal that the struct
  points to (\<open>d.Dec\<close>, Dec form). Copying a Dec-form quantity copies the pointer: what
  \<open>Sub\<close> then writes through the copy is written to the original too. The decimals of
  distinct map entries are taken to be distinct.

  A \<open>v1.ResourceList\<close> is a Go map from resource name to quantity. It is modelled as an
  association list: \<open>map_of\<close> is the lookup \<open>m[k]\<close>, \<open>AList.update\<close> the assignment
  \<open>m[k] = v\<close>, and the list order is the order in which \<open>range\<close> visits the entries
  (any order, in Go). A Go map holds every key once: \<open>distinct (map fst m)\<close>.
\<close>

type_synonym ResourceName = string
type_synonym Quantity = int
type_synonym ResourceList = "(ResourceName \<times> Quantity) list"

definition IsZero :: "Quantity \<Rightarrow> bool" where
  "IsZero q = (q = 0)"

definition Cmp :: "Quantity \<Rightarrow> Quantity \<Rightarrow> int" where
  "Cmp q y = (if q = y then 0 else if y < q then 1 else - 1)"

definition Sub :: "Quantity \<Rightarrow> Quantity \<Rightarrow> Quantity" where
  "Sub q y = q - y"

record NUMANode =
  NUMAID :: int
  Resources :: ResourceList

type_synonym NUMANodeList = "NUMANode list"

text \<open>
  \<open>numaNodes[node]\<close> panics when \<open>node\<close> is not an index of the slice. Every zone owns
  its resource map (no two elements of the slice share one).
\<close>

datatype panic = IndexOutOfRange int nat

definition index :: "NUMANodeList \<Rightarrow> int \<Rightarrow> NUMANode option" where
  "index numaNodes node =
     (if 0 \<le> node \<and> node < int (length numaNodes) then Some (numaNodes ! nat node) else None)"

text \<open>\<open>nRes[resName] = v\<close>, where \<open>nRes\<close> is the map of zone \<open>node\<close>.\<close>

definition assign :: "NUMANodeList \<Rightarrow> int \<Rightarrow> ResourceName \<Rightarrow> Quantity \<Rightarrow> NUMANodeList" where
  "assign numaNodes node resName v =
     numaNodes[nat node := (numaNodes ! nat node)
       \<lparr>Resources := AList.update resName v (Resources (numaNodes ! nat node))\<rparr>]"

text \<open>
  The inner loop \<open>for _, node := range nodes\<close> for one resource kind. Its state is the local
  copy \<open>quantity\<close> and the ledger; it returns both, with the panic that stopped it, if any
  (the writes made before a panic stay). The three cases of the \<open>switch\<close> are in the order
  of the source; the \<open>switch\<close> has no default, so no other value of \<open>Cmp\<close> writes anything.
\<close>

fun nodesLoop :: "ResourceName \<Rightarrow> Quantity \<Rightarrow> NUMANodeList \<Rightarrow> int list
    \<Rightarrow> panic option \<times> Quantity \<times> NUMANodeList" where
  "nodesLoop resName quantity numaNodes [] = (None, quantity, numaNodes)"
| "nodesLoop resName quantity numaNodes (node # nodes) =
     (if IsZero quantity then (None, quantity, numaNodes)
      else case index numaNodes node of
        None \<Rightarrow> (Some (IndexOutOfRange node (length numaNodes)), quantity, numaNodes)
      | Some z \<Rightarrow>
          (case map_of (Resources z) resName of
             None \<Rightarrow> nodesLoop resName quantity numaNodes nodes
           | Some available \<Rightarrow>
               if Cmp quantity available = 0 then
                 nodesLoop resName (Sub quantity available)
                   (assign numaNodes node resName 0) nodes
               else if Cmp quantity available = 1 then
                 nodesLoop resName (Sub quantity available)
                   (assign numaNodes node resName 0) nodes
               else if Cmp quantity available = - 1 then
                 nodesLoop resName 0
                   (assign numaNodes node resName (Sub available quantity)) nodes
               else
                 nodesLoop resName quantity numaNodes nodes))"

text \<open>
  The decimal that the loop copy \<open>quantity\<close> shares with the caller's entry, when that entry
  is in Dec form, and what it holds when the inner loop ends. \<open>quantity.Sub(available)\<close>
  subtracts in it. \<open>quantity = resource.Quantity{}\<close> gives the copy a new value and leaves
  the decimal as it is; the copy is zero from then on, so the loop stops at its next test.
  For a zone entry the form makes no difference: \<open>available.Sub(quantity)\<close> writes to the
  decimal of the entry that the next statement stores \<open>available\<close> in.
\<close>

fun sharedDec :: "ResourceName \<Rightarrow> Quantity \<Rightarrow> NUMANodeList \<Rightarrow> int list \<Rightarrow> Quantity" where
  "sharedDec resName quantity numaNodes [] = quantity"
| "sharedDec resName quantity numaNodes (node # nodes) =
     (if IsZero quantity then quantity
      else case index numaNodes node of
        None \<Rightarrow> quantity
      | Some z \<Rightarrow>
          (case map_of (Resources z) resName of
             None \<Rightarrow> sharedDec resName quantity numaNodes nodes
           | Some available \<Rightarrow>
               if Cmp quantity available = 0 then
                 sharedDec resName (Sub quantity available)
                   (assign numaNodes node resName 0) nodes
               else if Cmp quantity available = 1 then
                 sharedDec resName (Sub quantity available)
                   (assign numaNodes node resName 0) nodes
               else if Cmp quantity available = - 1 then
                 quantity
               else
                 sharedDec resName quantity numaNodes nodes))"

text \<open>
  What the caller can see after the call: the three arguments are reference values in Go
  (a map, a slice, and the slice behind the variadic parameter).
\<close>

record store =
  resources :: ResourceList
  numaNodes :: NUMANodeList
  nodes :: "int list"

text \<open>
  The store after the inner loop has run for one entry of the request. \<open>dec resName\<close> tells
  whether the caller's entry for \<open>resName\<close> is in Dec form; if it is, the entry holds what
  the shared decimal holds.
\<close>

definition afterScan :: "(ResourceName \<Rightarrow> bool) \<Rightarrow> ResourceName \<Rightarrow> Quantity \<Rightarrow> store \<Rightarrow> store" where
  "afterScan dec resName quantity s =
     s\<lparr>resources :=
         (if dec resName
          then AList.update resName (sharedDec resName quantity (numaNodes s) (nodes s)) (resources s)
          else resources s),
       numaNodes := snd (snd (nodesLoop resName quantity (numaNodes s) (nodes s)))\<rparr>"

text \<open>
  The outer loop \<open>for resName, quantity := range resources\<close>, over the entries left. A panic
  of the inner loop ends it, with the writes made so far.
\<close>

fun resourcesLoop :: "(ResourceName \<Rightarrow> bool) \<Rightarrow> (ResourceName \<times> Quantity) list \<Rightarrow> store
    \<Rightarrow> panic option \<times> store" where
  "resourcesLoop dec [] s = (None, s)"
| "resourcesLoop dec ((resName, quantity) # rest) s =
     (case fst (nodesLoop resName quantity (numaNodes s) (nodes s)) of
        Some p \<Rightarrow> (Some p, afterScan dec resName quantity s)
      | None \<Rightarrow> resourcesLoop dec rest (afterScan dec resName quantity s))"

text \<open>
  \<open>subtractFromNUMAs\<close>, called with a request \<open>rs\<close> whose Dec-form entries are those that
  \<open>dec\<close> tells, a ledger \<open>ns\<close> and an order.
\<close>

definition subtractFromNUMAs :: "(ResourceName \<Rightarrow> bool) \<Rightarrow> ResourceList \<Rightarrow> NUMANodeList \<Rightarrow> int list
    \<Rightarrow> panic option \<times> store" where
  "subtractFromNUMAs dec rs ns order =
     resourcesLoop dec rs \<lparr>resources = rs, numaNodes = ns, nodes = order\<rparr>"

text \<open>The ledger after the call.\<close>

definition ledger :: "(ResourceName \<Rightarrow> bool) \<Rightarrow> ResourceList \<Rightarrow> NUMANodeList \<Rightarrow> int list \<Rightarrow> NUMANodeList" where
  "ledger dec rs ns order = numaNodes (snd (subtractFromNUMAs dec rs ns order))"

subsection \<open>Measures on a ledger\<close>

text \<open>The quantity a zone has of a kind; a zone with no entry has none of it.\<close>

definition available :: "NUMANode \<Rightarrow> ResourceName \<Rightarrow> Quantity" where
  "available z r = (case map_of (Resources z) r of None \<Rightarrow> 0 | Some v \<Rightarrow> v)"

definition totalAvailable :: "ResourceName \<Rightarrow> NUMANodeList \<Rightarrow> Quantity" where
  "totalAvailable r ns = sum_list (map (\<lambda>z. available z r) ns)"

text \<open>The total over the zones that the order lists, each zone counted once.\<close>

definition listedAvailable :: "ResourceName \<Rightarrow> NUMANodeList \<Rightarrow> int list \<Rightarrow> Quantity" where
  "listedAvailable r ns order =
     sum_list (map (\<lambda>i. available (ns ! nat i) r) (remdups order))"

definition validOrder :: "NUMANodeList \<Rightarrow> int list \<Rightarrow> bool" where
  "validOrder ns order = list_all (\<lambda>i. 0 \<le> i \<and> i < int (length ns)) order"

definition nonNegative :: "ResourceList \<Rightarrow> bool" where
  "nonNegative rs = list_all (\<lambda>(r, q). 0 \<le> q) rs"

definition zonesNonNegative :: "NUMANodeList \<Rightarrow> bool" where
  "zonesNonNegative ns = list_all (\<lambda>z. nonNegative (Resources z)) ns"

text \<open>
  The same measures over a set of zone ids, for the proofs: the total of a kind, whether
  every id is an index, whether some zone holds an entry of the kind, whether every zone
  has a non-negative quantity of it.
\<close>

definition listed :: "ResourceName \<Rightarrow> NUMANodeList \<Rightarrow> int set \<Rightarrow> Quantity" where
  "listed r ns U = (\<Sum>i\<in>U. available (ns ! nat i) r)"

definition validIds :: "NUMANodeList \<Rightarrow> int set \<Rightarrow> bool" where
  "validIds ns U \<longleftrightarrow> (\<forall>i\<in>U. 0 \<le> i \<and> i < int (length ns))"

definition hasEntry :: "ResourceName \<Rightarrow> NUMANodeList \<Rightarrow> int set \<Rightarrow> bool" where
  "hasEntry r ns U \<longleftrightarrow> (\<exists>i\<in>U. map_of (Resources (ns ! nat i)) r \<noteq> None)"

definition listedNonNegative :: "ResourceName \<Rightarrow> NUMANodeList \<Rightarrow> int set \<Rightarrow> bool" where
  "listedNonNegative r ns U \<longleftrightarrow> (\<forall>i\<in>U. 0 \<le> available (ns ! nat i) r)"

text \<open>
  What the inner loop leaves of a request \<open>q\<close>, when the listed zones hold \<open>L\<close> in total,
  none of them negative, and \<open>e\<close> tells whether one of them has an entry.
\<close>

definition remaining :: "Quantity \<Rightarrow> Quantity \<Rightarrow> bool \<Rightarrow> Quantity" where
  "remaining q L e = (if 0 \<le> q then max (q - L) 0 else if e then 0 else q)"

section \<open>Score dispatch and construction\<close>

text \<open>
  \<open>topologyv1alpha1.TopologyManagerPolicy\<close> is a string type of the topology API; the
  plugin names six of its values. Any other value is \<open>OtherPolicy\<close>.
\<close>

datatype TopologyManagerPolicy =
    SingleNUMANodePodLevel
  | SingleNUMANodeContainerLevel
  | BestEffortPodLevel
  | BestEffortContainerLevel
  | RestrictedPodLevel
  | RestrictedContainerLevel
  | OtherPolicy string

text \<open>
  A \<open>scoringFn\<close> is a function value. The two least-NUMA scorers are named by the table;
  \<open>'f\<close> stands for every other function, such as those \<open>newScoringHandlers\<close> builds.
  A \<open>scoreHandlersMap\<close> is a Go map, written as the list of its entries.
\<close>

datatype 'f scoringFn =
    leastNUMAPodScopeScore
  | leastNUMAContainerScopeScore
  | OtherScoringFn 'f

type_synonym 'f scoreHandlersMap = "(TopologyManagerPolicy \<times> 'f scoringFn) list"

definition leastNUMAscoreHandlers :: "'f scoreHandlersMap" where
  "leastNUMAscoreHandlers =
     [(SingleNUMANodePodLevel, leastNUMAPodScopeScore),
      (SingleNUMANodeContainerLevel, leastNUMAContainerScopeScore),
      (BestEffortPodLevel, leastNUMAPodScopeScore),
      (BestEffortContainerLevel, leastNUMAContainerScopeScore),
      (RestrictedPodLevel, leastNUMAPodScopeScore),
      (RestrictedContainerLevel, leastNUMAContainerScopeScore)]"

text \<open>
  The part of \<open>apiconfig.NodeResourceTopologyMatchArgs\<close> that \<open>New\<close> reads. A
  \<open>ScoringStrategyType\<close> is a string type; \<open>New\<close> names one value of it. The field
  \<open>Resources\<close> of the scoring strategy is \<open>Resources'\<close> here, the name being taken by the
  zones.
\<close>

datatype ScoringStrategyType = LeastNUMANodes | OtherStrategyType string

record ResourceSpec =
  Name :: string
  Weight :: "64 word"

record ScoringStrategy =
  Type :: ScoringStrategyType
  Resources' :: "ResourceSpec list"

record NodeResourceTopologyMatchArgs =
  ScoringStrategy :: ScoringStrategy

text \<open>
  A \<open>runtime.Object\<close> is either the plugin's arguments or a value of another type, kept
  as the name \<open>%T\<close> prints. An \<open>error\<close> is its message.
\<close>

datatype runtime_Object = Args NodeResourceTopologyMatchArgs | OtherObject string

datatype error = Errorf string

type_synonym resourceToWeightMap = "string \<rightharpoonup> 64 word"

record ('flt, 'f, 'c) TopologyMatch =
  filterHandlers :: 'flt
  scoringHandlers :: "'f scoreHandlersMap"
  resourceToWeightMap :: resourceToWeightMap
  nrtCache :: 'c

text \<open>
  The loop of \<open>New\<close> that fills \<open>resToWeightMap\<close>, from the empty map.
\<close>

definition resToWeightMap :: "ResourceSpec list \<Rightarrow> resourceToWeightMap" where
  "resToWeightMap rs = foldl (\<lambda>m resource. m(Name resource \<mapsto> Weight resource)) Map.empty rs"

text \<open>
  \<open>New\<close>. The functions it calls that plugin.go does not define are its first four
  parameters: \<open>initNodeTopologyInformer\<close> and \<open>getScoringStrategyFunction\<close> return a value
  and an error (\<open>None\<close> is \<open>nil\<close>), \<open>newScoringHandlers\<close> and \<open>newFilterHandlers\<close> a table.
  The result is the pair that Go returns: the plugin, or \<open>nil\<close>, and the error, or \<open>nil\<close>.
\<close>

definition New ::
  "(NodeResourceTopologyMatchArgs \<Rightarrow> 'h \<Rightarrow> 'c \<times> error option) \<Rightarrow>
   (ScoringStrategyType \<Rightarrow> 's \<times> error option) \<Rightarrow>
   ('s \<Rightarrow> resourceToWeightMap \<Rightarrow> 'f scoreHandlersMap) \<Rightarrow> 'flt \<Rightarrow>
   runtime_Object \<Rightarrow> 'h \<Rightarrow> ('flt, 'f, 'c) TopologyMatch option \<times> error option" where
  "New initNodeTopologyInformer getScoringStrategyFunction newScoringHandlers newFilterHandlers
       args handle =
     (case args of
        OtherObject t \<Rightarrow>
          (None, Some (Errorf (''want args to be of type NodeResourceTopologyMatchArgs, got '' @ t)))
      | Args tcfg \<Rightarrow>
          (case initNodeTopologyInformer tcfg handle of
             (nrtCache', Some err) \<Rightarrow> (None, Some err)
           | (nrtCache', None) \<Rightarrow>
               if Type (ScoringStrategy tcfg) = LeastNUMANodes then
                 (Some \<lparr>filterHandlers = newFilterHandlers,
                        scoringHandlers = leastNUMAscoreHandlers,
                        resourceToWeightMap = resToWeightMap (Resources' (ScoringStrategy tcfg)),
                        nrtCache = nrtCache'\<rparr>, None)
               else
                 (case getScoringStrategyFunction (Type (ScoringStrategy tcfg)) of
                    (strategy, Some err) \<Rightarrow> (None, Some err)
                  | (strategy, None) \<Rightarrow>
                      (Some \<lparr>filterHandlers = newFilterHandlers,
                             scoringHandlers = newScoringHandlers strategy
                               (resToWeightMap (Resources' (ScoringStrategy tcfg))),
                             resourceToWeightMap = resToWeightMap (Resources' (ScoringStrategy tcfg)),
                             nrtCache = nrtCache'\<rparr>, None))))"

text \<open>What a scoring request returns: a score, or an internal error.\<close>

datatype 'r scoreResult = Scored 'r | InternalError

text \<open>
  Modelled from the spec: the request-time scoring entry point of the facade, which
  plugin.go does not hold. The spec has the facade invoke "the dispatch table entry
  matching the machine's declared policy" and return a score, or an internal error for "a
  policy with no dispatch entry"; the strategy "does not change per request". \<open>call\<close>
  stands for applying a scoring function to the workload and the zones. The plugin is
  passed and returned, as a method with a pointer receiver gets it.
\<close>

definition Score :: "('f scoringFn \<Rightarrow> 'w \<Rightarrow> 'r) \<Rightarrow> ('flt, 'f, 'c) TopologyMatch \<Rightarrow>
    TopologyManagerPolicy \<Rightarrow> 'w \<Rightarrow> 'r scoreResult \<times> ('flt, 'f, 'c) TopologyMatch" where
  "Score call tm policy workload =
     (case map_of (scoringHandlers tm) policy of
        None \<Rightarrow> (InternalError, tm)
      | Some fn \<Rightarrow> (Scored (call fn workload), tm))"

text \<open>Modelled from the spec: the plugin after a sequence of scoring requests.\<close>

fun serve :: "('f scoringFn \<Rightarrow> 'w \<Rightarrow> 'r) \<Rightarrow> ('flt, 'f, 'c) TopologyMatch \<Rightarrow>
    (TopologyManagerPolicy \<times> 'w) list \<Rightarrow> ('flt, 'f, 'c) TopologyMatch" where
  "serve call tm [] = tm"
| "serve call tm ((policy, workload) # requests) =
     serve call (snd (Score call tm policy workload)) requests"

section \<open>The inner loop\<close>

lemma Cmp_simps:
  "(Cmp q a = 0) = (q = a)" "(Cmp q a = 1) = (a < q)" "(Cmp q a = - 1) = (q < a)"
  by (auto simp: Cmp_def)

lemma nodesLoop_zero: "nodesLoop r 0 ns order = (None, 0, ns)"
  by (cases order) (simp_all add: IsZero_def)

lemma nodesLoop_invalid:
  "q \<noteq> 0 \<Longrightarrow> \<not> (0 \<le> node \<and> node < int (length ns)) \<Longrightarrow>
   nodesLoop r q ns (node # rest) = (Some (IndexOutOfRange node (length ns)), q, ns)"
  by (auto simp add: IsZero_def index_def)

lemma nodesLoop_absent:
  "q \<noteq> 0 \<Longrightarrow> 0 \<le> node \<Longrightarrow> node < int (length ns) \<Longrightarrow>
   map_of (Resources (ns ! nat node)) r = None \<Longrightarrow>
   nodesLoop r q ns (node # rest) = nodesLoop r q ns rest"
  by (simp add: IsZero_def index_def)

lemma nodesLoop_present:
  "q \<noteq> 0 \<Longrightarrow> 0 \<le> node \<Longrightarrow> node < int (length ns) \<Longrightarrow>
   map_of (Resources (ns ! nat node)) r = Some a \<Longrightarrow>
   nodesLoop r q ns (node # rest) =
     nodesLoop r (max (q - a) 0) (assign ns node r (max (a - q) 0)) rest"
  by (simp add: IsZero_def index_def Cmp_simps Sub_def max_def)

lemma length_assign [simp]: "length (assign ns node r v) = length ns"
  by (simp add: assign_def)

lemma nth_assign:
  "0 \<le> node \<Longrightarrow> node < int (length ns) \<Longrightarrow>
   Resources (assign ns node r v ! j) =
     (if j = nat node then AList.update r v (Resources (ns ! j)) else Resources (ns ! j))"
  by (auto simp: assign_def)

lemma nodesLoop_cases:
  obtains (zero) "q = 0"
  | (invalid) "q \<noteq> 0" "\<not> (0 \<le> node \<and> node < int (length ns))"
  | (absent) "q \<noteq> 0" "0 \<le> node" "node < int (length ns)"
      "map_of (Resources (ns ! nat node)) r = None"
  | (present) a where "q \<noteq> 0" "0 \<le> node" "node < int (length ns)"
      "map_of (Resources (ns ! nat node)) r = Some a"
  by (cases "map_of (Resources (ns ! nat node)) r") blast+

declare nodesLoop.simps(2) [simp del]

lemma nodesLoop_length: "length (snd (snd (nodesLoop r q ns order))) = length ns"
proof (induction order arbitrary: q ns)
  case Nil
  show ?case by simp
next
  case (Cons node rest)
  show ?case
  proof (cases rule: nodesLoop_cases[where q=q and node=node and ns=ns and r=r])
    case zero
    then show ?thesis by (simp add: nodesLoop_zero)
  next
    case invalid
    then show ?thesis by (simp add: nodesLoop_invalid)
  next
    case absent
    then show ?thesis by (simp add: nodesLoop_absent Cons.IH)
  next
    case (present a)
    then show ?thesis by (simp add: nodesLoop_present Cons.IH)
  qed
qed

lemma nodesLoop_no_panic:
  "validOrder ns order \<Longrightarrow> fst (nodesLoop r q ns order) = None"
proof (induction order arbitrary: q ns)
  case Nil
  show ?case by simp
next
  case (Cons node rest)
  then have v: "validOrder ns rest" and n: "0 \<le> node" "node < int (length ns)"
    by (simp_all add: validOrder_def)
  show ?case
  proof (cases rule: nodesLoop_cases[where q=q and node=node and ns=ns and r=r])
    case zero
    then show ?thesis by (simp add: nodesLoop_zero)
  next
    case invalid
    then show ?thesis using n by simp
  next
    case absent
    then show ?thesis by (simp add: nodesLoop_absent Cons.IH v)
  next
    case (present a)
    have "validOrder (assign ns node r (max (a - q) 0)) rest"
      using v by (simp add: validOrder_def)
    then show ?thesis using present by (simp add: nodesLoop_present Cons.IH)
  qed
qed

text \<open>Entries: which exist, and what the other kinds hold.\<close>

lemma map_of_assign:
  "0 \<le> node \<Longrightarrow> node < int (length ns) \<Longrightarrow>
   map_of (Resources (assign ns node r v ! j)) r' =
     (if j = nat node \<and> r' = r then Some v else map_of (Resources (ns ! j)) r')"
  by (simp add: nth_assign update_conv')

lemma nodesLoop_entries:
  "map_of (Resources (snd (snd (nodesLoop r q ns order)) ! j)) r' = None \<longleftrightarrow>
   map_of (Resources (ns ! j)) r' = None"
proof (induction order arbitrary: q ns)
  case Nil
  show ?case by simp
next
  case (Cons node rest)
  show ?case
  proof (cases rule: nodesLoop_cases[where q=q and node=node and ns=ns and r=r])
    case zero
    then show ?thesis by (simp add: nodesLoop_zero)
  next
    case invalid
    then show ?thesis by (simp add: nodesLoop_invalid)
  next
    case absent
    then show ?thesis by (simp add: nodesLoop_absent Cons.IH)
  next
    case (present a)
    then show ?thesis by (auto simp add: nodesLoop_present Cons.IH map_of_assign)
  qed
qed

lemma nodesLoop_other_kind:
  "r' \<noteq> r \<Longrightarrow>
   map_of (Resources (snd (snd (nodesLoop r q ns order)) ! j)) r' = map_of (Resources (ns ! j)) r'"
proof (induction order arbitrary: q ns)
  case Nil
  show ?case by simp
next
  case (Cons node rest)
  show ?case
  proof (cases rule: nodesLoop_cases[where q=q and node=node and ns=ns and r=r])
    case zero
    then show ?thesis by (simp add: nodesLoop_zero)
  next
    case invalid
    then show ?thesis by (simp add: nodesLoop_invalid)
  next
    case absent
    then show ?thesis by (simp add: nodesLoop_absent Cons)
  next
    case (present a)
    then show ?thesis using Cons.prems by (simp add: nodesLoop_present Cons.IH map_of_assign)
  qed
qed

lemma assign_nth_other: "j \<noteq> nat node \<Longrightarrow> assign ns node r v ! j = ns ! j"
  by (simp add: assign_def)

lemma nodesLoop_unlisted:
  "j \<notin> nat ` set order \<Longrightarrow> snd (snd (nodesLoop r q ns order)) ! j = ns ! j"
proof (induction order arbitrary: q ns)
  case Nil
  show ?case by simp
next
  case (Cons node rest)
  then have j: "j \<noteq> nat node" "j \<notin> nat ` set rest" by auto
  show ?case
  proof (cases rule: nodesLoop_cases[where q=q and node=node and ns=ns and r=r])
    case zero
    then show ?thesis by (simp add: nodesLoop_zero)
  next
    case invalid
    then show ?thesis by (simp add: nodesLoop_invalid)
  next
    case absent
    then show ?thesis by (simp add: nodesLoop_absent Cons.IH j)
  next
    case (present a)
    then show ?thesis by (simp add: nodesLoop_present Cons.IH j assign_nth_other)
  qed
qed

lemma nodesLoop_NUMAID:
  "NUMAID (snd (snd (nodesLoop r q ns order)) ! j) = NUMAID (ns ! j)"
proof (induction order arbitrary: q ns)
  case Nil
  show ?case by simp
next
  case (Cons node rest)
  show ?case
  proof (cases rule: nodesLoop_cases[where q=q and node=node and ns=ns and r=r])
    case zero
    then show ?thesis by (simp add: nodesLoop_zero)
  next
    case invalid
    then show ?thesis by (simp add: nodesLoop_invalid)
  next
    case absent
    then show ?thesis by (simp add: nodesLoop_absent Cons.IH)
  next
    case (present a)
    have "NUMAID (assign ns node r (max (a - q) 0) ! j) = NUMAID (ns ! j)"
      using present by (cases "j = nat node") (simp_all add: assign_def)
    then show ?thesis using present by (simp add: nodesLoop_present Cons.IH)
  qed
qed

text \<open>Signs.\<close>

lemma nonNegative_update:
  "nonNegative al \<Longrightarrow> 0 \<le> v \<Longrightarrow> nonNegative (AList.update k v al)"
  by (induction al) (auto simp: nonNegative_def)

lemma nonNegative_map_of:
  "nonNegative al \<Longrightarrow> map_of al k = Some a \<Longrightarrow> 0 \<le> a"
  by (auto simp: nonNegative_def list_all_iff dest!: map_of_SomeD)

lemma zonesNonNegative_assign:
  "zonesNonNegative ns \<Longrightarrow> 0 \<le> v \<Longrightarrow> 0 \<le> node \<Longrightarrow> node < int (length ns) \<Longrightarrow>
   zonesNonNegative (assign ns node r v)"
  unfolding zonesNonNegative_def list_all_length
  by (simp add: nth_assign nonNegative_update)

lemma nodesLoop_nonNegative:
  "zonesNonNegative ns \<Longrightarrow> zonesNonNegative (snd (snd (nodesLoop r q ns order)))"
proof (induction order arbitrary: q ns)
  case Nil
  then show ?case by simp
next
  case (Cons node rest)
  show ?case
  proof (cases rule: nodesLoop_cases[where q=q and node=node and ns=ns and r=r])
    case zero
    then show ?thesis using Cons.prems by (simp add: nodesLoop_zero)
  next
    case invalid
    then show ?thesis using Cons.prems by (simp add: nodesLoop_invalid)
  next
    case absent
    then show ?thesis using Cons.prems by (simp add: nodesLoop_absent Cons.IH)
  next
    case (present a)
    have "zonesNonNegative (assign ns node r (max (a - q) 0))"
      using Cons.prems present by (simp add: zonesNonNegative_assign)
    then show ?thesis using present by (simp add: nodesLoop_present Cons.IH)
  qed
qed

lemma listedAvailable_listed: "listedAvailable r ns order = listed r ns (set order)"
  by (simp add: listedAvailable_def listed_def sum.set_conv_list)

lemma totalAvailable_listed: "totalAvailable r ns = listed r ns {0..<int (length ns)}"
proof -
  have "totalAvailable r ns = (\<Sum>k = 0..<length ns. available (ns ! k) r)"
    by (simp add: totalAvailable_def sum_list_sum_nth)
  also have "\<dots> = (\<Sum>i\<in>int ` {0..<length ns}. available (ns ! nat i) r)"
    by (simp add: sum.reindex)
  also have "int ` {0..<length ns} = {0..<int (length ns)}"
    by (simp add: image_int_atLeastLessThan)
  finally show ?thesis by (simp add: listed_def)
qed

lemma available_assign:
  "0 \<le> node \<Longrightarrow> node < int (length ns) \<Longrightarrow> 0 \<le> i \<Longrightarrow>
   available (assign ns node r v ! nat i) r = (if i = node then v else available (ns ! nat i) r)"
  by (auto simp add: available_def map_of_assign)

lemma listed_assign:
  assumes "finite U" "validIds ns U" "node \<in> U"
  shows "listed r (assign ns node r v) U = listed r ns U - available (ns ! nat node) r + v"
proof -
  have n: "0 \<le> node" "node < int (length ns)" using assms by (auto simp: validIds_def)
  have "listed r (assign ns node r v) U = (\<Sum>i\<in>U. if i = node then v else available (ns ! nat i) r)"
    unfolding listed_def using assms(2) n by (intro sum.cong) (auto simp: validIds_def available_assign)
  also have "\<dots> = v + (\<Sum>i\<in>U - {node}. available (ns ! nat i) r)"
    using assms(1,3) by (subst sum.remove[of U node]) (auto intro: sum.cong)
  also have "(\<Sum>i\<in>U - {node}. available (ns ! nat i) r) = listed r ns U - available (ns ! nat node) r"
    unfolding listed_def using assms(1,3) by (simp add: sum_diff1)
  finally show ?thesis by simp
qed

text \<open>Conservation: what leaves the request leaves the zones.\<close>

lemma nodesLoop_conservation:
  assumes "finite U" "validIds ns U" "set order \<subseteq> U"
  shows "listed r (snd (snd (nodesLoop r q ns order))) U =
         listed r ns U - (q - fst (snd (nodesLoop r q ns order)))"
  using assms
proof (induction order arbitrary: q ns)
  case Nil
  show ?case by simp
next
  case (Cons node rest)
  then have rest: "set rest \<subseteq> U" and node: "node \<in> U" by auto
  show ?case
  proof (cases rule: nodesLoop_cases[where q=q and node=node and ns=ns and r=r])
    case zero
    then show ?thesis by (simp add: nodesLoop_zero)
  next
    case invalid
    then show ?thesis using Cons.prems node by (auto simp: validIds_def)
  next
    case absent
    then show ?thesis using Cons.IH[OF Cons.prems(1,2) rest] by (simp add: nodesLoop_absent)
  next
    case (present a)
    let ?ns = "assign ns node r (max (a - q) 0)"
    have v: "validIds ?ns U" using Cons.prems(2) by (simp add: validIds_def)
    have a: "available (ns ! nat node) r = a" using present by (simp add: available_def)
    have "listed r ?ns U = listed r ns U - a + max (a - q) 0"
      using listed_assign[OF Cons.prems(1,2) node] a by simp
    then show ?thesis
      using Cons.IH[OF Cons.prems(1) v rest, of "max (q - a) 0"] present
      by (simp add: nodesLoop_present max_def split: if_splits)
  qed
qed

text \<open>What is left of the request.\<close>

lemma listed_nonneg: "listedNonNegative r ns U \<Longrightarrow> 0 \<le> listed r ns U"
  by (simp add: listed_def listedNonNegative_def sum_nonneg)

lemma listed_ge_member:
  "finite U \<Longrightarrow> listedNonNegative r ns U \<Longrightarrow> i \<in> U \<Longrightarrow> available (ns ! nat i) r \<le> listed r ns U"
  unfolding listed_def listedNonNegative_def
  by (rule member_le_sum) auto

lemma nodesLoop_remaining:
  assumes "validIds ns (set order)" "listedNonNegative r ns (set order)"
  shows "fst (snd (nodesLoop r q ns order)) =
         remaining q (listed r ns (set order)) (hasEntry r ns (set order))"
  using assms
proof (induction order arbitrary: q ns)
  case Nil
  show ?case by (simp add: remaining_def listed_def hasEntry_def)
next
  case (Cons node rest)
  let ?U = "set (node # rest)"
  have vr: "validIds ns (set rest)" and nr: "listedNonNegative r ns (set rest)"
    and n: "0 \<le> node" "node < int (length ns)"
    using Cons.prems by (auto simp: validIds_def listedNonNegative_def)
  show ?case
  proof (cases rule: nodesLoop_cases[where q=q and node=node and ns=ns and r=r])
    case zero
    then show ?thesis
      using listed_nonneg[OF Cons.prems(2)] by (simp add: nodesLoop_zero remaining_def)
  next
    case invalid
    then show ?thesis using n by simp
  next
    case absent
    have "listed r ns ?U = listed r ns (set rest)"
      using absent(4) by (cases "node \<in> set rest") (simp_all add: listed_def available_def insert_absorb)
    moreover have "hasEntry r ns ?U = hasEntry r ns (set rest)"
      using absent(4) by (auto simp: hasEntry_def)
    ultimately show ?thesis
      using absent Cons.IH[OF vr nr] by (simp add: nodesLoop_absent)
  next
    case (present a)
    let ?ns = "assign ns node r (max (a - q) 0)"
    have a: "available (ns ! nat node) r = a" using present by (simp add: available_def)
    have a0: "0 \<le> a" using Cons.prems(2) a by (auto simp: listedNonNegative_def)
    have v': "validIds ?ns (set rest)" using vr by (simp add: validIds_def)
    have av: "\<And>i. i \<in> set rest \<Longrightarrow>
        available (?ns ! nat i) r = (if i = node then max (a - q) 0 else available (ns ! nat i) r)"
      using vr n by (simp add: available_assign validIds_def)
    have n': "listedNonNegative r ?ns (set rest)"
      using nr av by (auto simp: listedNonNegative_def)
    have e: "hasEntry r ns ?U" using present(4) by (auto simp: hasEntry_def)
    have IH: "fst (snd (nodesLoop r q ns (node # rest))) =
        remaining (max (q - a) 0) (listed r ?ns (set rest)) (hasEntry r ?ns (set rest))"
      using present Cons.IH[OF v' n'] by (simp add: nodesLoop_present)
    show ?thesis
    proof (cases "q \<le> a")
      case True
      have "a \<le> listed r ns ?U"
        using listed_ge_member[OF _ Cons.prems(2), of node] a by simp
      then show ?thesis
        using True IH e listed_nonneg[OF n'] by (simp add: remaining_def max_def)
    next
      case False
      then have m: "max (a - q) 0 = 0" "max (q - a) 0 = q - a" by simp_all
      have "listed r ?ns (set rest) = (\<Sum>i\<in>set rest. if i = node then 0 else available (ns ! nat i) r)"
        unfolding listed_def using av m by (intro sum.cong) auto
      also have "\<dots> = (\<Sum>i\<in>set rest - {node}. available (ns ! nat i) r)"
        by (simp add: sum.If_cases Diff_eq Int_commute) 
      also have "\<dots> = listed r ns ?U - a"
        unfolding listed_def using a by (simp add: sum.insert_remove)
      finally have "listed r ?ns (set rest) = listed r ns ?U - a" .
      then show ?thesis
        using False IH a0 by (simp add: remaining_def m)
    qed
  qed
qed

section \<open>The outer loop\<close>

lemma afterScan_simps [simp]:
  "numaNodes (afterScan dec r q s) = snd (snd (nodesLoop r q (numaNodes s) (nodes s)))"
  "nodes (afterScan dec r q s) = nodes s"
  by (simp_all add: afterScan_def)

lemma resourcesLoop_nodes: "nodes (snd (resourcesLoop dec es s)) = nodes s"
proof (induction es arbitrary: s)
  case Nil
  show ?case by simp
next
  case (Cons e es)
  obtain r q where e: "e = (r, q)" by (cases e)
  show ?case unfolding e
    by (simp add: Cons.IH split: option.splits)
qed

lemma resourcesLoop_length:
  "length (numaNodes (snd (resourcesLoop dec es s))) = length (numaNodes s)"
proof (induction es arbitrary: s)
  case Nil
  show ?case by simp
next
  case (Cons e es)
  obtain r q where e: "e = (r, q)" by (cases e)
  show ?case unfolding e
    by (simp add: Cons.IH nodesLoop_length split: option.splits)
qed

lemma resourcesLoop_valid:
  "validOrder (numaNodes s) (nodes s) \<Longrightarrow>
   resourcesLoop dec ((r, q) # rest) s = resourcesLoop dec rest (afterScan dec r q s)"
  by (simp add: nodesLoop_no_panic)

lemma validOrder_nodesLoop:
  "validOrder ns order \<Longrightarrow> validOrder (snd (snd (nodesLoop r q ns order'))) order"
  by (simp add: validOrder_def nodesLoop_length)

lemma resourcesLoop_no_panic:
  "validOrder (numaNodes s) (nodes s) \<Longrightarrow> fst (resourcesLoop dec es s) = None"
proof (induction es arbitrary: s)
  case Nil
  show ?case by simp
next
  case (Cons e es)
  obtain r q where e: "e = (r, q)" by (cases e)
  show ?case unfolding e resourcesLoop_valid[OF Cons.prems]
    using Cons.prems by (intro Cons.IH) (simp add: validOrder_nodesLoop)
qed

lemma resourcesLoop_nonNegative:
  "zonesNonNegative (numaNodes s) \<Longrightarrow> zonesNonNegative (numaNodes (snd (resourcesLoop dec es s)))"
proof (induction es arbitrary: s)
  case Nil
  then show ?case by simp
next
  case (Cons e es)
  obtain r q where e: "e = (r, q)" by (cases e)
  show ?case unfolding e using Cons.prems
    by (simp add: Cons.IH nodesLoop_nonNegative split: option.splits)
qed

lemma resourcesLoop_entries:
  "map_of (Resources (numaNodes (snd (resourcesLoop dec es s)) ! j)) r' = None \<longleftrightarrow>
   map_of (Resources (numaNodes s ! j)) r' = None"
proof (induction es arbitrary: s)
  case Nil
  show ?case by simp
next
  case (Cons e es)
  obtain r q where e: "e = (r, q)" by (cases e)
  show ?case unfolding e
    by (simp add: Cons.IH nodesLoop_entries split: option.splits)
qed

lemma resourcesLoop_other_kind:
  "r' \<notin> fst ` set es \<Longrightarrow>
   map_of (Resources (numaNodes (snd (resourcesLoop dec es s)) ! j)) r' =
   map_of (Resources (numaNodes s ! j)) r'"
proof (induction es arbitrary: s)
  case Nil
  show ?case by simp
next
  case (Cons e es)
  obtain r q where e: "e = (r, q)" by (cases e)
  have "r' \<noteq> r" "r' \<notin> fst ` set es" using Cons.prems e by auto
  then show ?case unfolding e
    by (simp add: Cons.IH nodesLoop_other_kind split: option.splits)
qed

lemma resourcesLoop_unlisted:
  "j \<notin> nat ` set (nodes s) \<Longrightarrow> numaNodes (snd (resourcesLoop dec es s)) ! j = numaNodes s ! j"
proof (induction es arbitrary: s)
  case Nil
  show ?case by simp
next
  case (Cons e es)
  obtain r q where e: "e = (r, q)" by (cases e)
  show ?case unfolding e using Cons.prems
    by (simp add: Cons.IH nodesLoop_unlisted split: option.splits)
qed

lemma listed_cong:
  "(\<And>i. i \<in> U \<Longrightarrow> map_of (Resources (ns' ! nat i)) r = map_of (Resources (ns ! nat i)) r) \<Longrightarrow>
   listed r ns' U = listed r ns U"
  unfolding listed_def available_def by (intro sum.cong) auto

lemma listedNonNegative_zones:
  assumes "zonesNonNegative ns" "validIds ns U"
  shows "listedNonNegative r ns U"
  unfolding listedNonNegative_def
proof
  fix i assume "i \<in> U"
  then have "nat i < length ns" using assms(2) by (auto simp: validIds_def)
  then have "nonNegative (Resources (ns ! nat i))"
    using assms(1) by (simp add: zonesNonNegative_def list_all_length)
  then show "0 \<le> available (ns ! nat i) r"
    by (auto simp: available_def split: option.splits dest: nonNegative_map_of)
qed

lemma validIds_validOrder: "validIds ns (set order) = validOrder ns order"
  by (auto simp: validIds_def validOrder_def list_all_iff)

text \<open>The inner loop on the totals, for the kind it handles.\<close>

lemma nodesLoop_total:
  assumes "validOrder ns order" "zonesNonNegative ns"
  shows "totalAvailable r (snd (snd (nodesLoop r q ns order))) =
         totalAvailable r ns -
           (q - remaining q (listedAvailable r ns order) (hasEntry r ns (set order)))"
proof -
  let ?U = "{0..<int (length ns)}"
  have v: "validIds ns (set order)" using assms(1) by (simp add: validIds_validOrder)
  have "set order \<subseteq> ?U" using v by (auto simp: validIds_def)
  moreover have "validIds ns ?U" by (simp add: validIds_def)
  ultimately have "listed r (snd (snd (nodesLoop r q ns order))) ?U =
      listed r ns ?U - (q - fst (snd (nodesLoop r q ns order)))"
    by (intro nodesLoop_conservation) auto
  then show ?thesis
    using nodesLoop_remaining[OF v listedNonNegative_zones[OF assms(2) v], where q=q and r=r]
    by (simp add: totalAvailable_listed nodesLoop_length listedAvailable_listed)
qed

lemma totalAvailable_cong:
  "length ns' = length ns \<Longrightarrow>
   (\<And>j. j < length ns \<Longrightarrow> map_of (Resources (ns' ! j)) r = map_of (Resources (ns ! j)) r) \<Longrightarrow>
   totalAvailable r ns' = totalAvailable r ns"
  unfolding totalAvailable_def available_def
  by (rule arg_cong[where f = sum_list]) (auto intro: nth_equalityI)

text \<open>The whole call on the totals, for a kind the request holds.\<close>

lemma resourcesLoop_total:
  assumes "distinct (map fst es)" "(r, q) \<in> set es"
    "validOrder (numaNodes s) (nodes s)" "zonesNonNegative (numaNodes s)"
  shows "totalAvailable r (numaNodes (snd (resourcesLoop dec es s))) =
         totalAvailable r (numaNodes s) -
           (q - remaining q (listedAvailable r (numaNodes s) (nodes s))
                  (hasEntry r (numaNodes s) (set (nodes s))))"
  using assms
proof (induction es arbitrary: s)
  case Nil
  then show ?case by simp
next
  case (Cons e es)
  obtain r0 q0 where e: "e = (r0, q0)" by (cases e)
  let ?ns = "snd (snd (nodesLoop r0 q0 (numaNodes s) (nodes s)))"
  let ?s = "afterScan dec r0 q0 s"
  have step: "resourcesLoop dec (e # es) s = resourcesLoop dec es ?s"
    unfolding e by (rule resourcesLoop_valid[OF Cons.prems(3)])
  have len: "length ?ns = length (numaNodes s)" by (rule nodesLoop_length)
  show ?case
  proof (cases "r0 = r")
    case True
    then have q0: "q0 = q" and notin: "r \<notin> fst ` set es"
      using Cons.prems(1,2) e by (auto simp: rev_image_eqI)
    have "totalAvailable r (numaNodes (snd (resourcesLoop dec es ?s))) = totalAvailable r ?ns"
      by (rule totalAvailable_cong) (simp_all add: resourcesLoop_length resourcesLoop_other_kind[OF notin])
    then show ?thesis
      unfolding step using nodesLoop_total[OF Cons.prems(3,4), where r=r and q=q] True q0 by simp
  next
    case False
    then have mem: "(r, q) \<in> set es" using Cons.prems(2) e by auto
    have same: "\<And>j. map_of (Resources (?ns ! j)) r = map_of (Resources (numaNodes s ! j)) r"
      using False by (simp add: nodesLoop_other_kind)
    have "totalAvailable r (numaNodes (snd (resourcesLoop dec es ?s))) =
          totalAvailable r ?ns -
            (q - remaining q (listedAvailable r ?ns (nodes s)) (hasEntry r ?ns (set (nodes s))))"
      using Cons.IH[of ?s] Cons.prems mem
      by (simp add: validOrder_nodesLoop nodesLoop_nonNegative)
    moreover have "totalAvailable r ?ns = totalAvailable r (numaNodes s)"
      using len same by (intro totalAvailable_cong) auto
    moreover have "listedAvailable r ?ns (nodes s) = listedAvailable r (numaNodes s) (nodes s)"
      unfolding listedAvailable_listed using same by (intro listed_cong) auto
    moreover have "hasEntry r ?ns (set (nodes s)) = hasEntry r (numaNodes s) (set (nodes s))"
      by (simp add: hasEntry_def same)
    ultimately show ?thesis unfolding step by simp
  qed
qed

lemma nodesLoop_listed:
  assumes "finite U" "validIds ns U" "set order \<subseteq> U" "zonesNonNegative ns"
  shows "listed r (snd (snd (nodesLoop r q ns order))) U =
         listed r ns U - (q - remaining q (listed r ns (set order)) (hasEntry r ns (set order)))"
proof -
  have v: "validIds ns (set order)" using assms(2,3) by (auto simp: validIds_def)
  show ?thesis
    using nodesLoop_conservation[OF assms(1-3), where r=r and q=q]
      nodesLoop_remaining[OF v listedNonNegative_zones[OF assms(4) v], where q=q and r=r]
    by simp
qed

lemma hasEntry_cong:
  "(\<And>i. (map_of (Resources (ns' ! nat i)) r = None) = (map_of (Resources (ns ! nat i)) r = None)) \<Longrightarrow>
   hasEntry r ns' U = hasEntry r ns U"
  by (simp add: hasEntry_def)

lemma resourcesLoop_order:
  assumes "set (nodes s1) = set (nodes s2)" "validOrder (numaNodes s1) (nodes s1)"
    "length (numaNodes s1) = length (numaNodes s2)"
    "zonesNonNegative (numaNodes s1)" "zonesNonNegative (numaNodes s2)"
    "\<And>r. totalAvailable r (numaNodes s1) = totalAvailable r (numaNodes s2)"
    "\<And>r. listed r (numaNodes s1) (set (nodes s1)) = listed r (numaNodes s2) (set (nodes s1))"
    "\<And>r. hasEntry r (numaNodes s1) (set (nodes s1)) = hasEntry r (numaNodes s2) (set (nodes s1))"
  shows "totalAvailable r (numaNodes (snd (resourcesLoop dec es s1))) =
         totalAvailable r (numaNodes (snd (resourcesLoop dec es s2)))"
  using assms
proof (induction es arbitrary: s1 s2)
  case Nil
  then show ?case by simp
next
  case (Cons e es)
  obtain r0 q0 where e: "e = (r0, q0)" by (cases e)
  let ?ns1 = "numaNodes s1" and ?ns2 = "numaNodes s2"
  let ?o1 = "nodes s1" and ?o2 = "nodes s2"
  let ?S = "set ?o1"
  let ?n1 = "snd (snd (nodesLoop r0 q0 ?ns1 ?o1))"
  let ?n2 = "snd (snd (nodesLoop r0 q0 ?ns2 ?o2))"
  let ?U = "{0..<int (length ?ns1)}"
  have S2: "set ?o2 = ?S" using Cons.prems(1) by simp
  have v1: "validIds ?ns1 ?S" and v2: "validIds ?ns2 ?S"
    using Cons.prems(2,3) by (simp_all add: validIds_validOrder validOrder_def)
  have vo2: "validOrder ?ns2 ?o2"
    using v2 S2 by (simp add: validIds_validOrder[symmetric])
  have sub: "?S \<subseteq> ?U" using v1 by (auto simp: validIds_def)
  have vU1: "validIds ?ns1 ?U" and vU2: "validIds ?ns2 ?U"
    using Cons.prems(3) by (simp_all add: validIds_def)
  have rem: "remaining q0 (listed r0 ?ns1 ?S) (hasEntry r0 ?ns1 ?S) =
             remaining q0 (listed r0 ?ns2 (set ?o2)) (hasEntry r0 ?ns2 (set ?o2))"
    using Cons.prems(7,8) S2 by simp
  have step1: "resourcesLoop dec (e # es) s1 = resourcesLoop dec es (afterScan dec r0 q0 s1)"
    unfolding e using Cons.prems(2) by (rule resourcesLoop_valid)
  have step2: "resourcesLoop dec (e # es) s2 = resourcesLoop dec es (afterScan dec r0 q0 s2)"
    unfolding e using vo2 by (rule resourcesLoop_valid)
  have tot: "totalAvailable k ?n1 = totalAvailable k ?n2" for k
  proof (cases "k = r0")
    case True
    have "listed r0 ?n1 ?U = listed r0 ?ns1 ?U - (q0 - remaining q0 (listed r0 ?ns1 ?S) (hasEntry r0 ?ns1 ?S))"
      by (rule nodesLoop_listed[OF _ vU1 sub Cons.prems(4)]) simp
    moreover have "listed r0 ?n2 ?U =
        listed r0 ?ns2 ?U - (q0 - remaining q0 (listed r0 ?ns2 (set ?o2)) (hasEntry r0 ?ns2 (set ?o2)))"
      using sub S2 by (intro nodesLoop_listed[OF _ vU2 _ Cons.prems(5)]) simp_all
    ultimately show ?thesis
      using rem Cons.prems(3) Cons.prems(6)[of r0] True
      by (simp add: totalAvailable_listed nodesLoop_length)
  next
    case False
    have "totalAvailable k ?n1 = totalAvailable k ?ns1"
      using False by (intro totalAvailable_cong) (simp_all add: nodesLoop_length nodesLoop_other_kind)
    moreover have "totalAvailable k ?n2 = totalAvailable k ?ns2"
      using False by (intro totalAvailable_cong) (simp_all add: nodesLoop_length nodesLoop_other_kind)
    ultimately show ?thesis using Cons.prems(6) by simp
  qed
  have lis: "listed k ?n1 ?S = listed k ?n2 ?S" for k
  proof (cases "k = r0")
    case True
    have "listed r0 ?n1 ?S = listed r0 ?ns1 ?S - (q0 - remaining q0 (listed r0 ?ns1 ?S) (hasEntry r0 ?ns1 ?S))"
      by (rule nodesLoop_listed[OF _ v1 _ Cons.prems(4)]) simp_all
    moreover have "listed r0 ?n2 ?S =
        listed r0 ?ns2 ?S - (q0 - remaining q0 (listed r0 ?ns2 (set ?o2)) (hasEntry r0 ?ns2 (set ?o2)))"
      using S2 by (intro nodesLoop_listed[OF _ v2 _ Cons.prems(5)]) simp_all
    ultimately show ?thesis using rem Cons.prems(7)[of r0] True by simp
  next
    case False
    have "listed k ?n1 ?S = listed k ?ns1 ?S"
      using False by (intro listed_cong) (simp add: nodesLoop_other_kind)
    moreover have "listed k ?n2 ?S = listed k ?ns2 ?S"
      using False by (intro listed_cong) (simp add: nodesLoop_other_kind)
    ultimately show ?thesis using Cons.prems(7) by simp
  qed
  have ent: "hasEntry k ?n1 ?S = hasEntry k ?n2 ?S" for k
    using Cons.prems(8)[of k] by (simp add: hasEntry_def nodesLoop_entries)
  show ?case
    unfolding step1 step2
  proof (rule Cons.IH)
    show "set (nodes (afterScan dec r0 q0 s1)) = set (nodes (afterScan dec r0 q0 s2))"
      using Cons.prems(1) by simp
    show "validOrder (numaNodes (afterScan dec r0 q0 s1)) (nodes (afterScan dec r0 q0 s1))"
      using Cons.prems(2) by (simp add: validOrder_nodesLoop)
    show "length (numaNodes (afterScan dec r0 q0 s1)) = length (numaNodes (afterScan dec r0 q0 s2))"
      using Cons.prems(3) by (simp add: nodesLoop_length)
    show "zonesNonNegative (numaNodes (afterScan dec r0 q0 s1))"
      using Cons.prems(4) by (simp add: nodesLoop_nonNegative)
    show "zonesNonNegative (numaNodes (afterScan dec r0 q0 s2))"
      using Cons.prems(5) by (simp add: nodesLoop_nonNegative)
    show "totalAvailable k (numaNodes (afterScan dec r0 q0 s1)) =
          totalAvailable k (numaNodes (afterScan dec r0 q0 s2))" for k
      using tot by simp
    show "listed k (numaNodes (afterScan dec r0 q0 s1)) (set (nodes (afterScan dec r0 q0 s1))) =
          listed k (numaNodes (afterScan dec r0 q0 s2)) (set (nodes (afterScan dec r0 q0 s1)))" for k
      using lis by simp
    show "hasEntry k (numaNodes (afterScan dec r0 q0 s1)) (set (nodes (afterScan dec r0 q0 s1))) =
          hasEntry k (numaNodes (afterScan dec r0 q0 s2)) (set (nodes (afterScan dec r0 q0 s1)))" for k
      using ent by simp
  qed
qed

lemma listed_le_total:
  assumes "validOrder ns order" "zonesNonNegative ns"
  shows "listedAvailable r ns order \<le> totalAvailable r ns"
proof -
  let ?U = "{0..<int (length ns)}"
  have "validIds ns ?U" by (simp add: validIds_def)
  then have "listedNonNegative r ns ?U" by (rule listedNonNegative_zones[OF assms(2)])
  moreover have "set order \<subseteq> ?U" using assms(1) by (auto simp: validOrder_def list_all_iff)
  ultimately have "listed r ns (set order) \<le> listed r ns ?U"
    unfolding listed_def listedNonNegative_def by (intro sum_mono2) auto
  then show ?thesis by (simp add: listedAvailable_listed totalAvailable_listed)
qed

lemma nodesLoop_all_absent:
  "validOrder ns order \<Longrightarrow> list_all (\<lambda>i. map_of (Resources (ns ! nat i)) r = None) order \<Longrightarrow>
   nodesLoop r q ns order = (None, q, ns)"
proof (induction order)
  case Nil
  show ?case by simp
next
  case (Cons node rest)
  then show ?case
    by (cases "q = 0") (simp_all add: nodesLoop_zero nodesLoop_absent validOrder_def)
qed

lemma update_keys_present:
  "map_of al k = Some a \<Longrightarrow> map fst (AList.update k v al) = map fst al"
  by (induction al) (auto split: if_splits)

lemma nodesLoop_keys:
  "map fst (Resources (snd (snd (nodesLoop r q ns order)) ! j)) = map fst (Resources (ns ! j))"
proof (induction order arbitrary: q ns)
  case Nil
  show ?case by simp
next
  case (Cons node rest)
  show ?case
  proof (cases rule: nodesLoop_cases[where q=q and node=node and ns=ns and r=r])
    case zero
    then show ?thesis by (simp add: nodesLoop_zero)
  next
    case invalid
    then show ?thesis by (simp add: nodesLoop_invalid)
  next
    case absent
    then show ?thesis by (simp add: nodesLoop_absent Cons.IH)
  next
    case (present a)
    then show ?thesis
      by (simp add: nodesLoop_present Cons.IH nth_assign update_keys_present)
  qed
qed

lemma resourcesLoop_keys:
  "map fst (Resources (numaNodes (snd (resourcesLoop dec es s)) ! j)) = map fst (Resources (numaNodes s ! j))"
proof (induction es arbitrary: s)
  case Nil
  show ?case by simp
next
  case (Cons e es)
  obtain r q where e: "e = (r, q)" by (cases e)
  show ?case unfolding e
    by (simp add: Cons.IH nodesLoop_keys split: option.splits)
qed

lemma resourcesLoop_NUMAID:
  "NUMAID (numaNodes (snd (resourcesLoop dec es s)) ! j) = NUMAID (numaNodes s ! j)"
proof (induction es arbitrary: s)
  case Nil
  show ?case by simp
next
  case (Cons e es)
  obtain r q where e: "e = (r, q)" by (cases e)
  show ?case unfolding e
    by (simp add: Cons.IH nodesLoop_NUMAID split: option.splits)
qed

lemma update_same: "map_of al k = Some v \<Longrightarrow> AList.update k v al = al"
  by (induction al) auto

lemma resourcesLoop_all_zero:
  "list_all (\<lambda>(r, q). IsZero q) es \<Longrightarrow>
   (\<And>r q. (r, q) \<in> set es \<Longrightarrow> map_of (resources s) r = Some 0) \<Longrightarrow>
   resourcesLoop dec es s = (None, s)"
proof (induction es)
  case Nil
  show ?case by simp
next
  case (Cons e es)
  obtain r q where e: "e = (r, q)" by (cases e)
  have q: "q = 0" using Cons.prems(1) e by (simp add: IsZero_def)
  have "map_of (resources s) r = Some 0" using Cons.prems(2)[of r q] e by simp
  then have "afterScan dec r 0 s = s"
    by (cases "nodes s") (simp_all add: afterScan_def nodesLoop_zero update_same IsZero_def)
  moreover have "resourcesLoop dec es s = (None, s)"
    using Cons.prems by (intro Cons.IH) auto
  ultimately show ?case
    unfolding e q by (simp add: nodesLoop_zero)
qed

text \<open>The quantity of each zone after a scan, by its place in the order.\<close>

lemma nodesLoop_append:
  "fst (nodesLoop r q ns xs) = None \<Longrightarrow>
   nodesLoop r q ns (xs @ ys) =
     nodesLoop r (fst (snd (nodesLoop r q ns xs))) (snd (snd (nodesLoop r q ns xs))) ys"
proof (induction xs arbitrary: q ns)
  case Nil
  show ?case by simp
next
  case (Cons node rest)
  show ?case
  proof (cases rule: nodesLoop_cases[where q=q and node=node and ns=ns and r=r])
    case zero
    then show ?thesis by (simp add: nodesLoop_zero)
  next
    case invalid
    then show ?thesis using Cons.prems by (simp add: nodesLoop_invalid)
  next
    case absent
    then show ?thesis using Cons.prems by (simp add: nodesLoop_absent Cons.IH)
  next
    case (present a)
    then show ?thesis using Cons.prems by (simp add: nodesLoop_present Cons.IH)
  qed
qed

lemma nodesLoop_zero_stays:
  "0 \<le> q \<Longrightarrow> available (ns ! j) r = 0 \<Longrightarrow>
   available (snd (snd (nodesLoop r q ns order)) ! j) r = 0"
proof (induction order arbitrary: q ns)
  case Nil
  then show ?case by simp
next
  case (Cons node rest)
  show ?case
  proof (cases rule: nodesLoop_cases[where q=q and node=node and ns=ns and r=r])
    case zero
    then show ?thesis using Cons.prems by (simp add: nodesLoop_zero)
  next
    case invalid
    then show ?thesis using Cons.prems by (simp add: nodesLoop_invalid)
  next
    case absent
    then show ?thesis using Cons.prems by (simp add: nodesLoop_absent Cons.IH)
  next
    case (present a)
    have "available (assign ns node r (max (a - q) 0) ! j) r = 0"
      using present Cons.prems by (auto simp add: available_def map_of_assign)
    then show ?thesis using present Cons.prems by (simp add: nodesLoop_present Cons.IH)
  qed
qed

lemma nodesLoop_head:
  assumes "0 \<le> q" "0 \<le> node" "node < int (length ns)" "0 \<le> available (ns ! nat node) r"
  shows "available (snd (snd (nodesLoop r q ns (node # rest))) ! nat node) r =
         max (available (ns ! nat node) r - q) 0"
proof (cases rule: nodesLoop_cases[where q=q and node=node and ns=ns and r=r])
  case zero
  then show ?thesis using assms by (simp add: nodesLoop_zero)
next
  case invalid
  then show ?thesis using assms by simp
next
  case absent
  then have "map_of (Resources (snd (snd (nodesLoop r q ns rest)) ! nat node)) r = None"
    by (simp add: nodesLoop_entries)
  then show ?thesis using absent assms(1) by (simp add: nodesLoop_absent available_def)
next
  case (present a)
  let ?ns = "assign ns node r (max (a - q) 0)"
  have a: "available (ns ! nat node) r = a" using present by (simp add: available_def)
  have v: "available (?ns ! nat node) r = max (a - q) 0"
    using present by (simp add: available_def map_of_assign)
  show ?thesis
  proof (cases "q \<le> a")
    case True
    then show ?thesis using present v a by (simp add: nodesLoop_present nodesLoop_zero)
  next
    case False
    then have "available (snd (snd (nodesLoop r (max (q - a) 0) ?ns rest)) ! nat node) r = 0"
      using v by (intro nodesLoop_zero_stays) simp_all
    then show ?thesis using present a False by (simp add: nodesLoop_present)
  qed
qed

lemma nodesLoop_position:
  assumes "validOrder ns order" "zonesNonNegative ns" "0 \<le> q"
    "k < length order" "order ! k \<notin> set (take k order)"
  shows "available (snd (snd (nodesLoop r q ns order)) ! nat (order ! k)) r =
         max (available (ns ! nat (order ! k)) r -
              max (q - listedAvailable r ns (take k order)) 0) 0"
proof -
  let ?xs = "take k order" and ?t = "order ! k" and ?ys = "drop (Suc k) order"
  let ?qk = "fst (snd (nodesLoop r q ns ?xs))" and ?nk = "snd (snd (nodesLoop r q ns ?xs))"
  have split: "order = ?xs @ ?t # ?ys" using assms(4) by (rule id_take_nth_drop)
  have all: "\<forall>i\<in>set order. 0 \<le> i \<and> i < int (length ns)"
    using assms(1) by (simp add: validOrder_def list_all_iff)
  have t: "0 \<le> ?t" "?t < int (length ns)" using all assms(4) by simp_all
  have vx: "validIds ns (set ?xs)" using all by (auto simp: validIds_def dest: in_set_takeD)
  then have vox: "validOrder ns ?xs" by (simp add: validIds_validOrder)
  have nx: "listedNonNegative r ns (set ?xs)" by (rule listedNonNegative_zones[OF assms(2) vx])
  have qk: "?qk = max (q - listedAvailable r ns ?xs) 0"
    using nodesLoop_remaining[OF vx nx, where q=q] assms(3)
    by (simp add: remaining_def listedAvailable_listed)
  have "nat ?t \<notin> nat ` set ?xs"
  proof
    assume "nat ?t \<in> nat ` set ?xs"
    then obtain i where i: "i \<in> set ?xs" "nat ?t = nat i" by auto
    then have "0 \<le> i" using vx by (simp add: validIds_def)
    then have "?t = i" using i(2) t(1) by simp
    then show False using i(1) assms(5) by simp
  qed
  then have same: "?nk ! nat ?t = ns ! nat ?t" by (rule nodesLoop_unlisted)
  have "validIds ns {?t}" using t by (simp add: validIds_def)
  then have a0: "0 \<le> available (ns ! nat ?t) r"
    using listedNonNegative_zones[OF assms(2), of "{?t}" r] by (simp add: listedNonNegative_def)
  have "nodesLoop r q ns order = nodesLoop r ?qk ?nk (?t # ?ys)"
    using nodesLoop_append[OF nodesLoop_no_panic[OF vox], of r q "?t # ?ys"] split by simp
  moreover have "available (snd (snd (nodesLoop r ?qk ?nk (?t # ?ys))) ! nat ?t) r =
      max (available (?nk ! nat ?t) r - ?qk) 0"
    using t a0 same qk by (intro nodesLoop_head) (simp_all add: nodesLoop_length)
  ultimately show ?thesis using same qk by simp
qed

text \<open>The same after the whole call, for a kind the request holds.\<close>

lemma available_cong:
  "map_of (Resources z') r = map_of (Resources z) r \<Longrightarrow> available z' r = available z r"
  by (simp add: available_def)

lemma resourcesLoop_position:
  assumes "distinct (map fst es)" "(r, q) \<in> set es"
    "validOrder (numaNodes s) (nodes s)" "zonesNonNegative (numaNodes s)" "0 \<le> q"
    "k < length (nodes s)" "nodes s ! k \<notin> set (take k (nodes s))"
  shows "available (numaNodes (snd (resourcesLoop dec es s)) ! nat (nodes s ! k)) r =
         max (available (numaNodes s ! nat (nodes s ! k)) r -
              max (q - listedAvailable r (numaNodes s) (take k (nodes s))) 0) 0"
  using assms
proof (induction es arbitrary: s)
  case Nil
  then show ?case by simp
next
  case (Cons e es)
  obtain r0 q0 where e: "e = (r0, q0)" by (cases e)
  let ?ns = "snd (snd (nodesLoop r0 q0 (numaNodes s) (nodes s)))"
  let ?s = "afterScan dec r0 q0 s"
  have step: "resourcesLoop dec (e # es) s = resourcesLoop dec es ?s"
    unfolding e by (rule resourcesLoop_valid[OF Cons.prems(3)])
  show ?case
  proof (cases "r0 = r")
    case True
    then have q0: "q0 = q" and notin: "r \<notin> fst ` set es"
      using Cons.prems(1,2) e by (auto simp: rev_image_eqI)
    have "available (numaNodes (snd (resourcesLoop dec es ?s)) ! nat (nodes s ! k)) r =
          available (?ns ! nat (nodes s ! k)) r"
      by (rule available_cong) (simp add: resourcesLoop_other_kind[OF notin])
    then show ?thesis
      unfolding step
      using nodesLoop_position[OF Cons.prems(3,4,5,6,7), where r=r] True q0 by simp
  next
    case False
    then have mem: "(r, q) \<in> set es" using Cons.prems(2) e by auto
    have same: "\<And>j. map_of (Resources (?ns ! j)) r = map_of (Resources (numaNodes s ! j)) r"
      using False by (simp add: nodesLoop_other_kind)
    have "available (numaNodes (snd (resourcesLoop dec es ?s)) ! nat (nodes s ! k)) r =
          max (available (?ns ! nat (nodes s ! k)) r -
               max (q - listedAvailable r ?ns (take k (nodes s))) 0) 0"
      using Cons.IH[of ?s] Cons.prems mem
      by (simp add: validOrder_nodesLoop nodesLoop_nonNegative)
    moreover have "available (?ns ! nat (nodes s ! k)) r = available (numaNodes s ! nat (nodes s ! k)) r"
      by (rule available_cong) (rule same)
    moreover have "listedAvailable r ?ns (take k (nodes s)) =
        listedAvailable r (numaNodes s) (take k (nodes s))"
      unfolding listedAvailable_listed using same by (intro listed_cong) auto
    ultimately show ?thesis unfolding step by simp
  qed
qed

text \<open>What the request is left with after the whole call, when the entry is in Dec form.\<close>

lemma resourcesLoop_keys_request:
  "map fst (resources (snd (resourcesLoop dec es s))) = map fst (resources s)"
  if "fst ` set es \<subseteq> fst ` set (resources s)"
  using that
proof (induction es arbitrary: s)
  case Nil
  show ?case by simp
next
  case (Cons e es)
  obtain r q where e: "e = (r, q)" by (cases e)
  have "r \<in> fst ` set (resources s)" using Cons.prems e by auto
  then have k: "map fst (resources (afterScan dec r q s)) = map fst (resources s)"
    by (auto simp add: afterScan_def update_keys)
  then have "fst ` set es \<subseteq> fst ` set (resources (afterScan dec r q s))"
    using Cons.prems by (metis (no_types, lifting) list.set_map set_subset_Cons subset_trans image_mono)
  then show ?case unfolding e
    using k by (simp add: Cons.IH split: option.splits)
qed

lemma resourcesLoop_int64_entries:
  "\<not> dec r \<Longrightarrow> map_of (resources (snd (resourcesLoop dec es s))) r = map_of (resources s) r"
proof (induction es arbitrary: s)
  case Nil
  show ?case by simp
next
  case (Cons e es)
  obtain r0 q0 where e: "e = (r0, q0)" by (cases e)
  have "map_of (resources (afterScan dec r0 q0 s)) r = map_of (resources s) r"
    using Cons.prems by (auto simp add: afterScan_def update_conv')
  then show ?case unfolding e
    using Cons.prems by (simp add: Cons.IH split: option.splits)
qed

section \<open>The weight map and the requests\<close>

lemma resToWeightMap_foldl:
  "foldl (\<lambda>m resource. m(Name resource \<mapsto> Weight resource)) m0 rs =
   m0 ++ map_of (rev (map (\<lambda>x. (Name x, Weight x)) rs))"
proof (induction rs arbitrary: m0)
  case Nil
  show ?case by simp
next
  case (Cons x rs)
  let ?f = "\<lambda>m resource. m(Name resource \<mapsto> Weight resource)"
  let ?M = "map_of (rev (map (\<lambda>x. (Name x, Weight x)) rs))"
  have "foldl ?f m0 (x # rs) = foldl ?f (m0(Name x \<mapsto> Weight x)) rs" by simp
  also have "\<dots> = m0(Name x \<mapsto> Weight x) ++ ?M" by (rule Cons.IH)
  also have "\<dots> = m0 ++ ([Name x \<mapsto> Weight x] ++ ?M)"
    by (rule ext) (simp add: map_add_def split: option.splits)
  also have "[Name x \<mapsto> Weight x] ++ ?M = map_of (rev (map (\<lambda>x. (Name x, Weight x)) (x # rs)))"
    by simp
  finally show ?case .
qed

lemma resToWeightMap_map_of:
  "resToWeightMap rs = map_of (rev (map (\<lambda>x. (Name x, Weight x)) rs))"
  by (simp add: resToWeightMap_def resToWeightMap_foldl)

lemma resToWeightMap_dom: "dom (resToWeightMap rs) = Name ` set rs"
  by (simp add: resToWeightMap_map_of dom_map_of_conv_image_fst image_image)

lemma resToWeightMap_distinct:
  assumes "distinct (map Name rs)" "x \<in> set rs"
  shows "resToWeightMap rs (Name x) = Some (Weight x)"
proof -
  have "distinct (map fst (rev (map (\<lambda>x. (Name x, Weight x)) rs)))"
    using assms(1) by (simp add: rev_map[symmetric] comp_def)
  moreover have "(Name x, Weight x) \<in> set (rev (map (\<lambda>x. (Name x, Weight x)) rs))"
    using assms(2) by auto
  ultimately show ?thesis
    unfolding resToWeightMap_map_of by (rule map_of_is_SomeI)
qed

lemma serve_same: "serve call p requests = p"
proof (induction requests arbitrary: p)
  case Nil
  show ?case by simp
next
  case (Cons x requests)
  obtain policy workload where "x = (policy, workload)" by (cases x)
  then show ?case by (simp add: Cons.IH Score_def split: option.splits)
qed

section \<open>The claims\<close>

text \<open>The equations that evaluate a call on a concrete input.\<close>

lemmas eval = subtractFromNUMAs_def ledger_def resourcesLoop.simps afterScan_def nodesLoop.simps
  sharedDec.simps index_def
  assign_def IsZero_def Cmp_def Sub_def totalAvailable_def listedAvailable_def available_def
  validOrder_def nonNegative_def zonesNonNegative_def

text \<open>
  Claim C1, conservation. For a call whose request is a Go map (no key twice), whose
  request and zones hold no negative quantity, and whose listed zone ids are all indices of
  the inventory: the call does not panic. For a kind \<open>r\<close> that the request holds with
  quantity \<open>q\<close>, the total of \<open>r\<close> over all zones falls by exactly \<open>min q L\<close>, where
  \<open>L\<close> is the total of \<open>r\<close> over the listed zones (each counted once; a zone with no
  entry counts for nothing), and what was subtracted is at most the total of \<open>r\<close> before
  the call. For a kind that the request does not hold, the total is what it was.
\<close>

theorem subtractFromNUMAs_conservation:
  assumes "distinct (map fst rs)" "validOrder ns order" "nonNegative rs" "zonesNonNegative ns"
  shows "fst (subtractFromNUMAs dec rs ns order) = None \<and>
    (map_of rs r = Some q \<longrightarrow>
       totalAvailable r ns - totalAvailable r (ledger dec rs ns order) =
         min q (listedAvailable r ns order) \<and>
       totalAvailable r ns - totalAvailable r (ledger dec rs ns order) \<le> totalAvailable r ns) \<and>
    (map_of rs r = None \<longrightarrow> totalAvailable r (ledger dec rs ns order) = totalAvailable r ns)"
proof -
  let ?s = "\<lparr>resources = rs, numaNodes = ns, nodes = order\<rparr>"
  have requested: "totalAvailable r ns - totalAvailable r (ledger dec rs ns order) =
      min q (listedAvailable r ns order)" if "map_of rs r = Some q"
  proof -
    have mem: "(r, q) \<in> set rs" using that by (rule map_of_SomeD)
    then have q: "0 \<le> q" using assms(3) by (auto simp: nonNegative_def list_all_iff)
    have "totalAvailable r (ledger dec rs ns order) =
          totalAvailable r ns -
            (q - remaining q (listedAvailable r ns order) (hasEntry r ns (set order)))"
      using resourcesLoop_total[OF assms(1) mem, of ?s] assms(2,4)
      by (simp add: ledger_def subtractFromNUMAs_def)
    then show ?thesis using q by (simp add: remaining_def)
  qed
  have other: "totalAvailable r (ledger dec rs ns order) = totalAvailable r ns" if "map_of rs r = None"
  proof -
    have "r \<notin> fst ` set rs" using that by (simp add: map_of_eq_None_iff)
    then show ?thesis
      unfolding ledger_def subtractFromNUMAs_def
      by (intro totalAvailable_cong) (simp_all add: resourcesLoop_length resourcesLoop_other_kind)
  qed
  have "fst (subtractFromNUMAs dec rs ns order) = None"
    using assms(2) by (simp add: subtractFromNUMAs_def resourcesLoop_no_panic)
  then show ?thesis
    using requested other listed_le_total[OF assms(2,4), of r] by auto
qed

theorem subtractFromNUMAs_conservation_witness:
  "distinct (map fst [(''cpu'', 6), (''memory'', 4)]) \<and>
   validOrder [\<lparr>NUMAID = 0, Resources = [(''cpu'', 4), (''memory'', 8)]\<rparr>,
               \<lparr>NUMAID = 1, Resources = [(''cpu'', 4), (''memory'', 8)]\<rparr>] [0, 1] \<and>
   nonNegative [(''cpu'', 6), (''memory'', 4)] \<and>
   zonesNonNegative [\<lparr>NUMAID = 0, Resources = [(''cpu'', 4), (''memory'', 8)]\<rparr>,
               \<lparr>NUMAID = 1, Resources = [(''cpu'', 4), (''memory'', 8)]\<rparr>] \<and>
   map_of [(''cpu'', 6), (''memory'', 4)] ''cpu'' = Some (6::int) \<and>
   map_of [(''cpu'', 6::int), (''memory'', 4)] ''gpu'' = None \<and>
   ledger (\<lambda>r. False) [(''cpu'', 6), (''memory'', 4)]
     [\<lparr>NUMAID = 0, Resources = [(''cpu'', 4), (''memory'', 8)]\<rparr>,
      \<lparr>NUMAID = 1, Resources = [(''cpu'', 4), (''memory'', 8)]\<rparr>] [0, 1] =
     [\<lparr>NUMAID = 0, Resources = [(''cpu'', 0), (''memory'', 4)]\<rparr>,
      \<lparr>NUMAID = 1, Resources = [(''cpu'', 2), (''memory'', 8)]\<rparr>] \<and>
   totalAvailable ''cpu'' [\<lparr>NUMAID = 0, Resources = [(''cpu'', 4), (''memory'', 8)]\<rparr>,
      \<lparr>NUMAID = 1, Resources = [(''cpu'', 4), (''memory'', 8)]\<rparr>] -
   totalAvailable ''cpu'' (ledger (\<lambda>r. False) [(''cpu'', 6), (''memory'', 4)]
     [\<lparr>NUMAID = 0, Resources = [(''cpu'', 4), (''memory'', 8)]\<rparr>,
      \<lparr>NUMAID = 1, Resources = [(''cpu'', 4), (''memory'', 8)]\<rparr>] [0, 1]) =
   min 6 (listedAvailable ''cpu'' [\<lparr>NUMAID = 0, Resources = [(''cpu'', 4), (''memory'', 8)]\<rparr>,
      \<lparr>NUMAID = 1, Resources = [(''cpu'', 4), (''memory'', 8)]\<rparr>] [0, 1]) \<and>
   totalAvailable ''gpu'' (ledger (\<lambda>r. False) [(''cpu'', 6), (''memory'', 4)]
     [\<lparr>NUMAID = 0, Resources = [(''cpu'', 4), (''memory'', 8)]\<rparr>,
      \<lparr>NUMAID = 1, Resources = [(''cpu'', 4), (''memory'', 8)]\<rparr>] [0, 1]) =
   totalAvailable ''gpu'' [\<lparr>NUMAID = 0, Resources = [(''cpu'', 4), (''memory'', 8)]\<rparr>,
      \<lparr>NUMAID = 1, Resources = [(''cpu'', 4), (''memory'', 8)]\<rparr>]"
proof -
  let ?rs = "[(''cpu'', 6::int), (''memory'', 4)]"
  let ?ns = "[\<lparr>NUMAID = 0, Resources = [(''cpu'', 4), (''memory'', 8)]\<rparr>,
              \<lparr>NUMAID = 1, Resources = [(''cpu'', 4), (''memory'', 8)]\<rparr>]"
  have h1: "distinct (map fst ?rs)" by simp
  have h2: "validOrder ?ns [0, 1]" by (simp add: validOrder_def)
  have h3: "nonNegative ?rs" by (simp add: nonNegative_def)
  have h4: "zonesNonNegative ?ns" by (simp add: zonesNonNegative_def nonNegative_def)
  have h5: "map_of ?rs ''cpu'' = Some 6" by simp
  have h6: "map_of ?rs ''gpu'' = None" by simp
  have l: "ledger (\<lambda>r. False) ?rs ?ns [0, 1] =
     [\<lparr>NUMAID = 0, Resources = [(''cpu'', 0), (''memory'', 4)]\<rparr>,
      \<lparr>NUMAID = 1, Resources = [(''cpu'', 2), (''memory'', 8)]\<rparr>]"
    by (simp add: eval)
  from subtractFromNUMAs_conservation[OF h1 h2 h3 h4, where dec="\<lambda>r. False" and r="''cpu''" and q=6] h5
  have a: "totalAvailable ''cpu'' ?ns - totalAvailable ''cpu'' (ledger (\<lambda>r. False) ?rs ?ns [0, 1]) =
      min 6 (listedAvailable ''cpu'' ?ns [0, 1])" by blast
  from subtractFromNUMAs_conservation[OF h1 h2 h3 h4, where dec="\<lambda>r. False" and r="''gpu''"] h6
  have b: "totalAvailable ''gpu'' (ledger (\<lambda>r. False) ?rs ?ns [0, 1]) = totalAvailable ''gpu'' ?ns" by blast
  show ?thesis using h1 h2 h3 h4 h5 h6 l a b by simp
qed

text \<open>
  Without the sign condition the statement of C1 fails. With zones \<open>{cpu: 3}\<close> and
  \<open>{cpu: -5}\<close>, order \<open>[0, 1]\<close> and request \<open>{cpu: 2}\<close>, the call subtracts 2, while the
  listed total, and the total before the call, is \<open>-2\<close>. With the request \<open>{gpu: -1}\<close>
  against one zone that has no \<open>gpu\<close> entry, nothing is subtracted, while the minimum of
  the request and the listed total is \<open>-1\<close>.
\<close>

theorem subtractFromNUMAs_conservation_counterexample:
  "validOrder [\<lparr>NUMAID = 0, Resources = [(''cpu'', 3)]\<rparr>,
               \<lparr>NUMAID = 1, Resources = [(''cpu'', - 5)]\<rparr>] [0, 1] \<and>
   \<not> (totalAvailable ''cpu'' [\<lparr>NUMAID = 0, Resources = [(''cpu'', 3)]\<rparr>,
                              \<lparr>NUMAID = 1, Resources = [(''cpu'', - 5)]\<rparr>] -
        totalAvailable ''cpu'' (ledger (\<lambda>r. False) [(''cpu'', 2)]
          [\<lparr>NUMAID = 0, Resources = [(''cpu'', 3)]\<rparr>,
           \<lparr>NUMAID = 1, Resources = [(''cpu'', - 5)]\<rparr>] [0, 1]) =
        min 2 (listedAvailable ''cpu'' [\<lparr>NUMAID = 0, Resources = [(''cpu'', 3)]\<rparr>,
                                       \<lparr>NUMAID = 1, Resources = [(''cpu'', - 5)]\<rparr>] [0, 1])) \<and>
   \<not> (totalAvailable ''cpu'' [\<lparr>NUMAID = 0, Resources = [(''cpu'', 3)]\<rparr>,
                              \<lparr>NUMAID = 1, Resources = [(''cpu'', - 5)]\<rparr>] -
        totalAvailable ''cpu'' (ledger (\<lambda>r. False) [(''cpu'', 2)]
          [\<lparr>NUMAID = 0, Resources = [(''cpu'', 3)]\<rparr>,
           \<lparr>NUMAID = 1, Resources = [(''cpu'', - 5)]\<rparr>] [0, 1]) \<le>
        totalAvailable ''cpu'' [\<lparr>NUMAID = 0, Resources = [(''cpu'', 3)]\<rparr>,
                              \<lparr>NUMAID = 1, Resources = [(''cpu'', - 5)]\<rparr>]) \<and>
   validOrder [\<lparr>NUMAID = 0, Resources = [(''cpu'', 3)]\<rparr>] [0] \<and>
   \<not> (totalAvailable ''gpu'' [\<lparr>NUMAID = 0, Resources = [(''cpu'', 3)]\<rparr>] -
        totalAvailable ''gpu'' (ledger (\<lambda>r. False) [(''gpu'', - 1)]
          [\<lparr>NUMAID = 0, Resources = [(''cpu'', 3)]\<rparr>] [0]) =
        min (- 1) (listedAvailable ''gpu'' [\<lparr>NUMAID = 0, Resources = [(''cpu'', 3)]\<rparr>] [0]))"
  by (simp add: eval)

text \<open>
  Claim C2, clamping and carrying. If no quantity of the request and of the zones is
  negative, no quantity of any zone is negative after the call. For a kind \<open>r\<close> that the
  request holds with quantity \<open>q\<close>, and the zone listed at place \<open>k\<close> of the order (its
  first place there) with an entry \<open>a\<close> of \<open>r\<close>: what reaches that zone is the part of \<open>q\<close>
  that the zones listed before it could not give, \<open>max (q - L) 0\<close> with \<open>L\<close> their total, and
  the entry is present afterwards with \<open>max (a - max (q - L) 0) 0\<close>: zero when request and
  entry are equal, never negative. The scan returns what no listed zone could give. One
  step of the scan, at a zone that has an entry \<open>a\<close> of the kind while the request still
  wants \<open>quantity\<close>: when they are equal, the entry becomes zero and nothing is left of
  the request; when the request wants more, the entry becomes zero and the scan goes on to
  the next zone with \<open>quantity - a\<close>; when the zone has more, the entry becomes
  \<open>a - quantity\<close> and nothing is left of the request. The scan of an empty order returns
  what it was given.
\<close>

theorem subtractFromNUMAs_clamps:
  assumes "nonNegative rs" "zonesNonNegative ns"
  shows "zonesNonNegative (ledger dec rs ns order) \<and>
    (distinct (map fst rs) \<and> validOrder ns order \<and> map_of rs r = Some q \<and>
     k < length order \<and> order ! k \<notin> set (take k order) \<and>
     map_of (Resources (ns ! nat (order ! k))) r = Some a \<longrightarrow>
       map_of (Resources (ledger dec rs ns order ! nat (order ! k))) r =
         Some (max (a - max (q - listedAvailable r ns (take k order)) 0) 0)) \<and>
    (validOrder ns order \<and> 0 \<le> q \<longrightarrow>
       fst (snd (nodesLoop r q ns order)) = max (q - listedAvailable r ns order) 0) \<and>
    nodesLoop r q ns [] = (None, q, ns) \<and>
    (\<forall>zs resName quantity node rest z a v.
       \<not> IsZero quantity \<and> index zs node = Some z \<and> map_of (Resources z) resName = Some a \<longrightarrow>
         (quantity = a \<longrightarrow>
            nodesLoop resName quantity zs (node # rest) =
              nodesLoop resName 0 (assign zs node resName 0) rest) \<and>
         (a < quantity \<longrightarrow>
            nodesLoop resName quantity zs (node # rest) =
              nodesLoop resName (quantity - a) (assign zs node resName 0) rest) \<and>
         (quantity < a \<longrightarrow>
            nodesLoop resName quantity zs (node # rest) =
              nodesLoop resName 0 (assign zs node resName (a - quantity)) rest) \<and>
         map_of (Resources (assign zs node resName v ! nat node)) resName = Some v)"
proof -
  let ?s = "\<lparr>resources = rs, numaNodes = ns, nodes = order\<rparr>"
  let ?t = "order ! k"
  have sign: "zonesNonNegative (ledger dec rs ns order)"
    using assms(2) by (simp add: ledger_def subtractFromNUMAs_def resourcesLoop_nonNegative)
  have place: "map_of (Resources (ledger dec rs ns order ! nat ?t)) r =
      Some (max (a - max (q - listedAvailable r ns (take k order)) 0) 0)"
    if h: "distinct (map fst rs)" "validOrder ns order" "map_of rs r = Some q"
      "k < length order" "?t \<notin> set (take k order)"
      "map_of (Resources (ns ! nat ?t)) r = Some a"
  proof -
    have mem: "(r, q) \<in> set rs" using h(3) by (rule map_of_SomeD)
    then have q: "0 \<le> q" using assms(1) by (auto simp: nonNegative_def list_all_iff)
    have "available (ledger dec rs ns order ! nat ?t) r =
        max (available (ns ! nat ?t) r - max (q - listedAvailable r ns (take k order)) 0) 0"
      using resourcesLoop_position[OF h(1) mem, of ?s k dec] h(2,4,5) assms(2) q
      by (simp add: ledger_def subtractFromNUMAs_def)
    moreover have "map_of (Resources (ledger dec rs ns order ! nat ?t)) r \<noteq> None"
      using h(6) by (simp add: ledger_def subtractFromNUMAs_def resourcesLoop_entries)
    ultimately show ?thesis using h(6) by (auto simp: available_def)
  qed
  have left: "fst (snd (nodesLoop r q ns order)) = max (q - listedAvailable r ns order) 0"
    if h: "validOrder ns order" "0 \<le> q"
  proof -
    have v: "validIds ns (set order)" using h(1) by (simp add: validIds_validOrder)
    show ?thesis
      using nodesLoop_remaining[OF v listedNonNegative_zones[OF assms(2) v], where q=q and r=r] h(2)
      by (simp add: remaining_def listedAvailable_listed)
  qed
  have written: "map_of (Resources (assign zs node resName v ! nat node)) resName = Some v"
    if "index zs node = Some z" for zs node resName v z
    using that by (simp add: index_def map_of_assign split: if_splits)
  have step: "nodesLoop resName quantity zs (node # rest) =
      nodesLoop resName (max (quantity - a) 0) (assign zs node resName (max (a - quantity) 0)) rest"
    if "\<not> IsZero quantity" "index zs node = Some z" "map_of (Resources z) resName = Some a"
    for zs resName quantity node rest z a
    using that by (intro nodesLoop_present) (auto simp: IsZero_def index_def split: if_splits)
  have steps: "\<forall>zs resName quantity node rest z a v.
       \<not> IsZero quantity \<and> index zs node = Some z \<and> map_of (Resources z) resName = Some a \<longrightarrow>
         (quantity = a \<longrightarrow>
            nodesLoop resName quantity zs (node # rest) =
              nodesLoop resName 0 (assign zs node resName 0) rest) \<and>
         (a < quantity \<longrightarrow>
            nodesLoop resName quantity zs (node # rest) =
              nodesLoop resName (quantity - a) (assign zs node resName 0) rest) \<and>
         (quantity < a \<longrightarrow>
            nodesLoop resName quantity zs (node # rest) =
              nodesLoop resName 0 (assign zs node resName (a - quantity)) rest) \<and>
         map_of (Resources (assign zs node resName v ! nat node)) resName = Some v"
    using written step by (auto simp: max_def)
  have place': "distinct (map fst rs) \<and> validOrder ns order \<and> map_of rs r = Some q \<and>
     k < length order \<and> order ! k \<notin> set (take k order) \<and>
     map_of (Resources (ns ! nat (order ! k))) r = Some a \<longrightarrow>
       map_of (Resources (ledger dec rs ns order ! nat (order ! k))) r =
         Some (max (a - max (q - listedAvailable r ns (take k order)) 0) 0)"
    using place by blast
  have left': "validOrder ns order \<and> 0 \<le> q \<longrightarrow>
       fst (snd (nodesLoop r q ns order)) = max (q - listedAvailable r ns order) 0"
    using left by blast
  have base: "nodesLoop r q ns [] = (None, q, ns)" by simp
  show ?thesis by (intro conjI) (rule sign place' left' base steps)+
qed

theorem subtractFromNUMAs_clamps_witness:
  "nonNegative [(''cpu'', 6)] \<and>
   zonesNonNegative [\<lparr>NUMAID = 0, Resources = [(''cpu'', 4)]\<rparr>,
                     \<lparr>NUMAID = 1, Resources = [(''cpu'', 4)]\<rparr>] \<and>
   distinct (map fst [(''cpu'', 6::int)]) \<and>
   validOrder [\<lparr>NUMAID = 0, Resources = [(''cpu'', 4)]\<rparr>,
               \<lparr>NUMAID = 1, Resources = [(''cpu'', 4)]\<rparr>] [0, 1] \<and>
   map_of [(''cpu'', 6::int)] ''cpu'' = Some 6 \<and>
   (1::nat) < length [0, 1::int] \<and> [0, 1::int] ! 1 \<notin> set (take 1 [0, 1]) \<and>
   map_of (Resources ([\<lparr>NUMAID = 0, Resources = [(''cpu'', 4)]\<rparr>,
                       \<lparr>NUMAID = 1, Resources = [(''cpu'', 4)]\<rparr>] ! nat ([0, 1] ! 1))) ''cpu'' = Some 4 \<and>
   map_of (Resources (ledger (\<lambda>r. False) [(''cpu'', 6)]
       [\<lparr>NUMAID = 0, Resources = [(''cpu'', 4)]\<rparr>,
        \<lparr>NUMAID = 1, Resources = [(''cpu'', 4)]\<rparr>] [0, 1] ! 1)) ''cpu'' = Some 2 \<and>
   ledger (\<lambda>r. False) [(''cpu'', 6)]
       [\<lparr>NUMAID = 0, Resources = [(''cpu'', 4)]\<rparr>,
        \<lparr>NUMAID = 1, Resources = [(''cpu'', 4)]\<rparr>] [0, 1] =
     [\<lparr>NUMAID = 0, Resources = [(''cpu'', 0)]\<rparr>, \<lparr>NUMAID = 1, Resources = [(''cpu'', 2)]\<rparr>] \<and>
   (0::int) \<le> 9 \<and>
   fst (snd (nodesLoop ''cpu'' 9 [\<lparr>NUMAID = 0, Resources = [(''cpu'', 4)]\<rparr>,
        \<lparr>NUMAID = 1, Resources = [(''cpu'', 4)]\<rparr>] [0, 1])) = 1 \<and>
   \<not> IsZero 3 \<and>
   index [\<lparr>NUMAID = 0, Resources = [(''cpu'', 3)]\<rparr>] 0 =
     Some \<lparr>NUMAID = 0, Resources = [(''cpu'', 3)]\<rparr> \<and>
   map_of (Resources \<lparr>NUMAID = 0, Resources = [(''cpu'', 3)]\<rparr>) ''cpu'' = Some 3 \<and>
   nodesLoop ''cpu'' 3 [\<lparr>NUMAID = 0, Resources = [(''cpu'', 3)]\<rparr>] [0] =
     nodesLoop ''cpu'' 0 (assign [\<lparr>NUMAID = 0, Resources = [(''cpu'', 3)]\<rparr>] 0 ''cpu'' 0) [] \<and>
   ledger (\<lambda>r. False) [(''cpu'', 3)] [\<lparr>NUMAID = 0, Resources = [(''cpu'', 3)]\<rparr>] [0] =
     [\<lparr>NUMAID = 0, Resources = [(''cpu'', 0)]\<rparr>]"
proof -
  let ?ns = "[\<lparr>NUMAID = 0, Resources = [(''cpu'', 4::int)]\<rparr>,
              \<lparr>NUMAID = 1, Resources = [(''cpu'', 4)]\<rparr>]"
  let ?z = "\<lparr>NUMAID = 0, Resources = [(''cpu'', 3::int)]\<rparr>"
  have h1: "nonNegative [(''cpu'', 6)]" by (simp add: nonNegative_def)
  have h2: "zonesNonNegative ?ns" by (simp add: zonesNonNegative_def nonNegative_def)
  have h3: "distinct (map fst [(''cpu'', 6::int)])" "validOrder ?ns [0, 1]"
    "map_of [(''cpu'', 6::int)] ''cpu'' = Some 6" "(1::nat) < length [0, 1::int]"
    "[0, 1::int] ! 1 \<notin> set (take 1 [0, 1])"
    "map_of (Resources (?ns ! nat ([0, 1] ! 1))) ''cpu'' = Some 4"
    by (simp_all add: validOrder_def)
  have h4: "(0::int) \<le> 9" by simp
  have h5: "\<not> IsZero 3" "index [?z] 0 = Some ?z" "map_of (Resources ?z) ''cpu'' = Some 3"
    by (simp_all add: IsZero_def index_def)
  note t = subtractFromNUMAs_clamps[OF h1 h2, where dec="\<lambda>r. False" and order="[0, 1]"
      and r="''cpu''" and q=6 and k=1 and a=4]
  note u = subtractFromNUMAs_clamps[OF h1 h2, where dec="\<lambda>r. False" and order="[0, 1]"
      and r="''cpu''" and q=9 and k=1 and a=4]
  from t h3 have a: "map_of (Resources (ledger (\<lambda>r. False) [(''cpu'', 6)] ?ns [0, 1] !
      nat ([0, 1] ! 1))) ''cpu'' =
      Some (max (4 - max (6 - listedAvailable ''cpu'' ?ns (take 1 [0, 1])) 0) 0)"
    by blast
  have a': "map_of (Resources (ledger (\<lambda>r. False) [(''cpu'', 6)] ?ns [0, 1] ! 1)) ''cpu'' = Some 2"
    using a by (simp add: listedAvailable_def available_def)
  from u h3(2) h4 have b: "fst (snd (nodesLoop ''cpu'' 9 ?ns [0, 1])) =
      max (9 - listedAvailable ''cpu'' ?ns [0, 1]) 0" by blast
  have b': "fst (snd (nodesLoop ''cpu'' 9 ?ns [0, 1])) = 1"
    using b by (simp add: listedAvailable_def available_def)
  from t h5 have c: "nodesLoop ''cpu'' 3 [?z] [0] = nodesLoop ''cpu'' 0 (assign [?z] 0 ''cpu'' 0) []"
    by blast
  have l: "ledger (\<lambda>r. False) [(''cpu'', 6)] ?ns [0, 1] =
     [\<lparr>NUMAID = 0, Resources = [(''cpu'', 0)]\<rparr>, \<lparr>NUMAID = 1, Resources = [(''cpu'', 2)]\<rparr>]"
    "ledger (\<lambda>r. False) [(''cpu'', 3)] [?z] [0] = [\<lparr>NUMAID = 0, Resources = [(''cpu'', 0)]\<rparr>]"
    by (simp_all add: eval)
  show ?thesis
    using h1 h2 h3 h4 h5 a' b' c l by simp
qed

text \<open>
  Claim C3, zone order. For two orders that list the same zone ids, every id an index of
  the inventory, and zones that hold no negative quantity: neither call panics, and the
  total left of every kind over all zones is the same for both orders. The zones
  themselves may differ: the witness has \<open>{cpu: 0}, {cpu: 2}\<close> for one order and
  \<open>{cpu: 2}, {cpu: 0}\<close> for the other.
\<close>

theorem subtractFromNUMAs_order:
  assumes "set order1 = set order2" "validOrder ns order1" "zonesNonNegative ns"
  shows "fst (subtractFromNUMAs dec rs ns order1) = None \<and>
         fst (subtractFromNUMAs dec rs ns order2) = None \<and>
         totalAvailable r (ledger dec rs ns order1) = totalAvailable r (ledger dec rs ns order2)"
proof -
  have v2: "validOrder ns order2"
    using assms(1,2) by (simp add: validOrder_def list_all_iff)
  have "totalAvailable r (ledger dec rs ns order1) = totalAvailable r (ledger dec rs ns order2)"
    unfolding ledger_def subtractFromNUMAs_def
    using assms by (intro resourcesLoop_order) simp_all
  then show ?thesis
    using assms(2) v2 by (simp add: subtractFromNUMAs_def resourcesLoop_no_panic)
qed

theorem subtractFromNUMAs_order_witness:
  "set [0, 1] = set [1, 0::int] \<and>
   validOrder [\<lparr>NUMAID = 0, Resources = [(''cpu'', 4)]\<rparr>,
               \<lparr>NUMAID = 1, Resources = [(''cpu'', 4)]\<rparr>] [0, 1] \<and>
   zonesNonNegative [\<lparr>NUMAID = 0, Resources = [(''cpu'', 4)]\<rparr>,
                     \<lparr>NUMAID = 1, Resources = [(''cpu'', 4)]\<rparr>] \<and>
   ledger (\<lambda>r. False) [(''cpu'', 6)] [\<lparr>NUMAID = 0, Resources = [(''cpu'', 4)]\<rparr>,
                          \<lparr>NUMAID = 1, Resources = [(''cpu'', 4)]\<rparr>] [0, 1] =
     [\<lparr>NUMAID = 0, Resources = [(''cpu'', 0)]\<rparr>, \<lparr>NUMAID = 1, Resources = [(''cpu'', 2)]\<rparr>] \<and>
   ledger (\<lambda>r. False) [(''cpu'', 6)] [\<lparr>NUMAID = 0, Resources = [(''cpu'', 4)]\<rparr>,
                          \<lparr>NUMAID = 1, Resources = [(''cpu'', 4)]\<rparr>] [1, 0] =
     [\<lparr>NUMAID = 0, Resources = [(''cpu'', 2)]\<rparr>, \<lparr>NUMAID = 1, Resources = [(''cpu'', 0)]\<rparr>] \<and>
   totalAvailable ''cpu'' (ledger (\<lambda>r. False) [(''cpu'', 6)] [\<lparr>NUMAID = 0, Resources = [(''cpu'', 4)]\<rparr>,
                          \<lparr>NUMAID = 1, Resources = [(''cpu'', 4)]\<rparr>] [0, 1]) =
   totalAvailable ''cpu'' (ledger (\<lambda>r. False) [(''cpu'', 6)] [\<lparr>NUMAID = 0, Resources = [(''cpu'', 4)]\<rparr>,
                          \<lparr>NUMAID = 1, Resources = [(''cpu'', 4)]\<rparr>] [1, 0])"
proof -
  let ?ns = "[\<lparr>NUMAID = 0, Resources = [(''cpu'', 4::int)]\<rparr>,
              \<lparr>NUMAID = 1, Resources = [(''cpu'', 4)]\<rparr>]"
  have h1: "set [0, 1] = set [1, 0::int]" by auto
  have h2: "validOrder ?ns [0, 1]" by (simp add: validOrder_def)
  have h3: "zonesNonNegative ?ns" by (simp add: zonesNonNegative_def nonNegative_def)
  have l1: "ledger (\<lambda>r. False) [(''cpu'', 6)] ?ns [0, 1] =
     [\<lparr>NUMAID = 0, Resources = [(''cpu'', 0)]\<rparr>, \<lparr>NUMAID = 1, Resources = [(''cpu'', 2)]\<rparr>]"
    by (simp add: eval)
  have l2: "ledger (\<lambda>r. False) [(''cpu'', 6)] ?ns [1, 0] =
     [\<lparr>NUMAID = 0, Resources = [(''cpu'', 2)]\<rparr>, \<lparr>NUMAID = 1, Resources = [(''cpu'', 0)]\<rparr>]"
    by (simp add: eval)
  from subtractFromNUMAs_order[OF h1 h2 h3, where dec="\<lambda>r. False" and rs="[(''cpu'', 6)]"
      and r="''cpu''"]
  have t: "totalAvailable ''cpu'' (ledger (\<lambda>r. False) [(''cpu'', 6)] ?ns [0, 1]) =
           totalAvailable ''cpu'' (ledger (\<lambda>r. False) [(''cpu'', 6)] ?ns [1, 0])" by simp
  show ?thesis using h1 h2 h3 l1 l2 t by blast
qed

text \<open>
  Without these conditions the statement of C3 fails. With zones \<open>{cpu: 3}\<close> and
  \<open>{cpu: -5}\<close> and request \<open>{cpu: 2}\<close>, the order \<open>[0, 1]\<close> leaves \<open>-4\<close> in total and the
  order \<open>[1, 0]\<close> leaves 0. With one zone \<open>{cpu: 5}\<close>, the order \<open>[0, 7]\<close> leaves 3 (the
  request is met before the id 7 is looked up) and the order \<open>[7, 0]\<close> leaves 5 (the lookup
  of 7 panics before anything is written).
\<close>

theorem subtractFromNUMAs_order_counterexample:
  "set [0, 1] = set [1, 0::int] \<and>
   validOrder [\<lparr>NUMAID = 0, Resources = [(''cpu'', 3)]\<rparr>,
               \<lparr>NUMAID = 1, Resources = [(''cpu'', - 5)]\<rparr>] [0, 1] \<and>
   totalAvailable ''cpu'' (ledger (\<lambda>r. False) [(''cpu'', 2)]
      [\<lparr>NUMAID = 0, Resources = [(''cpu'', 3)]\<rparr>,
       \<lparr>NUMAID = 1, Resources = [(''cpu'', - 5)]\<rparr>] [0, 1]) \<noteq>
   totalAvailable ''cpu'' (ledger (\<lambda>r. False) [(''cpu'', 2)]
      [\<lparr>NUMAID = 0, Resources = [(''cpu'', 3)]\<rparr>,
       \<lparr>NUMAID = 1, Resources = [(''cpu'', - 5)]\<rparr>] [1, 0]) \<and>
   set [0, 7] = set [7, 0::int] \<and>
   totalAvailable ''cpu'' (ledger (\<lambda>r. False) [(''cpu'', 2)]
      [\<lparr>NUMAID = 0, Resources = [(''cpu'', 5)]\<rparr>] [0, 7]) \<noteq>
   totalAvailable ''cpu'' (ledger (\<lambda>r. False) [(''cpu'', 2)]
      [\<lparr>NUMAID = 0, Resources = [(''cpu'', 5)]\<rparr>] [7, 0])"
proof -
  have "set [0, 1] = set [1, 0::int]" "set [0, 7] = set [7, 0::int]" by auto
  then show ?thesis by (simp add: eval)
qed

text \<open>
  Claim C4, frame. The code does not keep the request map as it was. The loop copy of a
  Dec-form quantity shares the decimal of the caller's entry, and \<open>quantity.Sub\<close> subtracts
  in it. A request of 1.5Gi of memory in Dec form, against two zones of 1Gi in the order
  \<open>[0, 1]\<close>, leaves 512Mi in the caller's map: the first zone is taken through
  \<open>quantity.Sub\<close>, the second through \<open>available.Sub\<close> and a new value for the copy,
  which leave the decimal alone. The same request in int64 form is left as it was. The
  ledger is the same for both, and the order is what it was.
\<close>

theorem subtractFromNUMAs_request_written:
  "resources (snd (subtractFromNUMAs (\<lambda>r. True) [(''memory'', 1610612736)]
      [\<lparr>NUMAID = 0, Resources = [(''memory'', 1073741824)]\<rparr>,
       \<lparr>NUMAID = 1, Resources = [(''memory'', 1073741824)]\<rparr>] [0, 1])) =
     [(''memory'', 536870912)] \<and>
   resources (snd (subtractFromNUMAs (\<lambda>r. False) [(''memory'', 1610612736)]
      [\<lparr>NUMAID = 0, Resources = [(''memory'', 1073741824)]\<rparr>,
       \<lparr>NUMAID = 1, Resources = [(''memory'', 1073741824)]\<rparr>] [0, 1])) =
     [(''memory'', 1610612736)] \<and>
   ledger (\<lambda>r. True) [(''memory'', 1610612736)]
      [\<lparr>NUMAID = 0, Resources = [(''memory'', 1073741824)]\<rparr>,
       \<lparr>NUMAID = 1, Resources = [(''memory'', 1073741824)]\<rparr>] [0, 1] =
     [\<lparr>NUMAID = 0, Resources = [(''memory'', 0)]\<rparr>,
      \<lparr>NUMAID = 1, Resources = [(''memory'', 536870912)]\<rparr>] \<and>
   nodes (snd (subtractFromNUMAs (\<lambda>r. True) [(''memory'', 1610612736)]
      [\<lparr>NUMAID = 0, Resources = [(''memory'', 1073741824)]\<rparr>,
       \<lparr>NUMAID = 1, Resources = [(''memory'', 1073741824)]\<rparr>] [0, 1])) = [0, 1]"
  by (simp add: eval)

text \<open>
  Claim C5, zero requests. A call whose request holds only zero quantities returns
  without a panic and leaves the inventory, the request and the order as they were,
  whatever the order lists and whatever the form of the request's entries. More generally
  the scan for a kind whose quantity is zero stops at once: it looks up no zone and writes
  nothing.
\<close>

theorem subtractFromNUMAs_zero:
  "(list_all (\<lambda>(resName, quantity). IsZero quantity) rs \<longrightarrow>
      subtractFromNUMAs dec rs ns order = (None, \<lparr>resources = rs, numaNodes = ns, nodes = order\<rparr>)) \<and>
   (IsZero quantity \<longrightarrow> nodesLoop resName quantity ns order = (None, quantity, ns))"
proof -
  have "subtractFromNUMAs dec rs ns order = (None, \<lparr>resources = rs, numaNodes = ns, nodes = order\<rparr>)"
    if z: "list_all (\<lambda>(resName, quantity). IsZero quantity) rs"
  proof -
    have "map_of rs r = Some 0" if mem: "(r, q) \<in> set rs" for r q
    proof -
      obtain v where v: "map_of rs r = Some v" using weak_map_of_SomeI[OF mem] by blast
      then have "(r, v) \<in> set rs" by (rule map_of_SomeD)
      then show ?thesis using z v by (auto simp: list_all_iff IsZero_def)
    qed
    then show ?thesis
      unfolding subtractFromNUMAs_def using z by (intro resourcesLoop_all_zero) auto
  qed
  then show ?thesis by (simp add: IsZero_def nodesLoop_zero)
qed

theorem subtractFromNUMAs_zero_witness:
  "list_all (\<lambda>(resName, quantity). IsZero quantity) [(''cpu'', 0), (''memory'', 0)] \<and>
   subtractFromNUMAs (\<lambda>r. True) [(''cpu'', 0), (''memory'', 0)]
     [\<lparr>NUMAID = 0, Resources = [(''cpu'', 4), (''memory'', 8)]\<rparr>] [0, 5] =
     (None, \<lparr>resources = [(''cpu'', 0), (''memory'', 0)],
             numaNodes = [\<lparr>NUMAID = 0, Resources = [(''cpu'', 4), (''memory'', 8)]\<rparr>],
             nodes = [0, 5]\<rparr>) \<and>
   IsZero 0 \<and>
   nodesLoop ''cpu'' 0 [\<lparr>NUMAID = 0, Resources = [(''cpu'', 4), (''memory'', 8)]\<rparr>] [0, 5] =
     (None, 0, [\<lparr>NUMAID = 0, Resources = [(''cpu'', 4), (''memory'', 8)]\<rparr>])"
proof -
  have h1: "list_all (\<lambda>(resName, quantity). IsZero quantity) [(''cpu'', 0), (''memory'', 0)]"
    by (simp add: IsZero_def)
  have h2: "IsZero 0" by (simp add: IsZero_def)
  show ?thesis
    using h1 h2
      subtractFromNUMAs_zero[where dec="\<lambda>r. True" and rs="[(''cpu'', 0), (''memory'', 0)]"
        and ns="[\<lparr>NUMAID = 0, Resources = [(''cpu'', 4), (''memory'', 8)]\<rparr>]" and order="[0, 5]"
        and quantity=0 and resName="''cpu''"]
    by blast
qed

text \<open>
  Claim C6, absent kinds. At a zone that has no entry of the kind the scan goes on to the
  next zone with the same quantity and the same ledger. A call creates no entry and removes
  none: a zone has an entry of a kind after the call exactly if it had one before. When no
  listed zone has an entry of the kind, the scan returns the quantity it was given and the
  ledger it was given, and after the call every zone holds for that kind what it held
  before.
\<close>

theorem subtractFromNUMAs_absent:
  "(\<not> IsZero quantity \<and> index ns node = Some z \<and> map_of (Resources z) resName = None \<longrightarrow>
      nodesLoop resName quantity ns (node # rest) = nodesLoop resName quantity ns rest) \<and>
   ((map_of (Resources (ledger dec rs ns order ! j)) resName = None) =
      (map_of (Resources (ns ! j)) resName = None)) \<and>
   (validOrder ns order \<and> list_all (\<lambda>i. map_of (Resources (ns ! nat i)) resName = None) order \<longrightarrow>
      nodesLoop resName quantity ns order = (None, quantity, ns) \<and>
      map_of (Resources (ledger dec rs ns order ! j)) resName = map_of (Resources (ns ! j)) resName)"
proof -
  have a: "nodesLoop resName quantity ns (node # rest) = nodesLoop resName quantity ns rest"
    if "\<not> IsZero quantity" "index ns node = Some z" "map_of (Resources z) resName = None"
    using that by (intro nodesLoop_absent) (auto simp: IsZero_def index_def split: if_splits)
  have b: "(map_of (Resources (ledger dec rs ns order ! j)) resName = None) =
      (map_of (Resources (ns ! j)) resName = None)"
    by (simp add: ledger_def subtractFromNUMAs_def resourcesLoop_entries)
  have c: "map_of (Resources (ledger dec rs ns order ! j)) resName = map_of (Resources (ns ! j)) resName"
    if "list_all (\<lambda>i. map_of (Resources (ns ! nat i)) resName = None) order"
  proof (cases "j \<in> nat ` set order")
    case True
    then have "map_of (Resources (ns ! j)) resName = None"
      using that by (auto simp: list_all_iff)
    then show ?thesis using b by simp
  next
    case False
    then show ?thesis
      by (simp add: ledger_def subtractFromNUMAs_def resourcesLoop_unlisted)
  qed
  show ?thesis using a b c nodesLoop_all_absent by blast
qed

theorem subtractFromNUMAs_absent_witness:
  "\<not> IsZero 2 \<and>
   index [\<lparr>NUMAID = 0, Resources = [(''cpu'', 4)]\<rparr>] 0 = Some \<lparr>NUMAID = 0, Resources = [(''cpu'', 4)]\<rparr> \<and>
   map_of (Resources \<lparr>NUMAID = 0, Resources = [(''cpu'', 4)]\<rparr>) ''gpu'' = None \<and>
   validOrder [\<lparr>NUMAID = 0, Resources = [(''cpu'', 4)]\<rparr>] [0] \<and>
   list_all (\<lambda>i. map_of (Resources ([\<lparr>NUMAID = 0, Resources = [(''cpu'', 4)]\<rparr>] ! nat i)) ''gpu'' = None) [0] \<and>
   nodesLoop ''gpu'' 2 [\<lparr>NUMAID = 0, Resources = [(''cpu'', 4)]\<rparr>] [0] =
     nodesLoop ''gpu'' 2 [\<lparr>NUMAID = 0, Resources = [(''cpu'', 4)]\<rparr>] [] \<and>
   nodesLoop ''gpu'' 2 [\<lparr>NUMAID = 0, Resources = [(''cpu'', 4)]\<rparr>] [0] =
     (None, 2, [\<lparr>NUMAID = 0, Resources = [(''cpu'', 4)]\<rparr>]) \<and>
   map_of (Resources (ledger (\<lambda>r. False) [(''gpu'', 2)] [\<lparr>NUMAID = 0, Resources = [(''cpu'', 4)]\<rparr>] [0] ! 0)) ''gpu'' =
     None"
proof -
  let ?z = "\<lparr>NUMAID = 0, Resources = [(''cpu'', 4::int)]\<rparr>"
  have h1: "\<not> IsZero 2" by (simp add: IsZero_def)
  have h2: "index [?z] 0 = Some ?z" by (simp add: index_def)
  have h3: "map_of (Resources ?z) ''gpu'' = None" by simp
  have h4: "validOrder [?z] [0]" by (simp add: validOrder_def)
  have h5: "list_all (\<lambda>i. map_of (Resources ([?z] ! nat i)) ''gpu'' = None) [0]" by simp
  have h6: "map_of (Resources ([?z] ! 0)) ''gpu'' = None" by simp
  show ?thesis
    using h1 h2 h3 h4 h5 h6
      subtractFromNUMAs_absent[where quantity=2 and ns="[?z]" and node=0 and z="?z"
        and resName="''gpu''" and rest="[]" and rs="[(''gpu'', 2)]" and order="[0]" and j=0
        and dec="\<lambda>r. False"]
    by metis
qed

text \<open>
  Claim C7, the least-NUMA table. \<open>leastNUMAscoreHandlers\<close> has one entry for each of the
  six policies and no other key; the three pod-level policies map to
  \<open>leastNUMAPodScopeScore\<close> and the three container-level policies to
  \<open>leastNUMAContainerScopeScore\<close>.
\<close>

theorem leastNUMAscoreHandlers_total:
  "distinct (map fst leastNUMAscoreHandlers) \<and>
   fst ` set leastNUMAscoreHandlers =
     {SingleNUMANodePodLevel, SingleNUMANodeContainerLevel, BestEffortPodLevel,
      BestEffortContainerLevel, RestrictedPodLevel, RestrictedContainerLevel} \<and>
   map_of leastNUMAscoreHandlers SingleNUMANodePodLevel = Some leastNUMAPodScopeScore \<and>
   map_of leastNUMAscoreHandlers BestEffortPodLevel = Some leastNUMAPodScopeScore \<and>
   map_of leastNUMAscoreHandlers RestrictedPodLevel = Some leastNUMAPodScopeScore \<and>
   map_of leastNUMAscoreHandlers SingleNUMANodeContainerLevel = Some leastNUMAContainerScopeScore \<and>
   map_of leastNUMAscoreHandlers BestEffortContainerLevel = Some leastNUMAContainerScopeScore \<and>
   map_of leastNUMAscoreHandlers RestrictedContainerLevel = Some leastNUMAContainerScopeScore \<and>
   map_of leastNUMAscoreHandlers (OtherPolicy p) = None"
  by (auto simp add: leastNUMAscoreHandlers_def)

text \<open>
  Claim C8, construction errors. \<open>New\<close> returns no plugin and an error when the
  arguments are of another type, when \<open>initNodeTopologyInformer\<close> returns an error, and
  when the strategy type is not \<open>LeastNUMANodes\<close> and \<open>getScoringStrategyFunction\<close> returns
  an error. It returns a plugin exactly when it returns no error, and then all three checks
  have passed and the plugin holds the filter table, the cache of the informer and the
  weight map of the configuration.
\<close>

theorem New_error_or_plugin:
  "New I G S F (OtherObject t) h =
     (None, Some (Errorf (''want args to be of type NodeResourceTopologyMatchArgs, got '' @ t))) \<and>
   (snd (I tcfg h) = Some err \<longrightarrow> New I G S F (Args tcfg) h = (None, Some err)) \<and>
   (snd (I tcfg h) = None \<and> Type (ScoringStrategy tcfg) \<noteq> LeastNUMANodes \<and>
    snd (G (Type (ScoringStrategy tcfg))) = Some err \<longrightarrow>
      New I G S F (Args tcfg) h = (None, Some err)) \<and>
   ((fst (New I G S F args h) = None) = (snd (New I G S F args h) \<noteq> None)) \<and>
   (fst (New I G S F args h) = Some tm \<longrightarrow>
      (\<exists>c. args = Args c \<and> snd (I c h) = None \<and>
         (Type (ScoringStrategy c) = LeastNUMANodes \<or> snd (G (Type (ScoringStrategy c))) = None) \<and>
         filterHandlers tm = F \<and> nrtCache tm = fst (I c h) \<and>
         resourceToWeightMap tm = resToWeightMap (Resources' (ScoringStrategy c))))"
  by (cases args) (auto simp add: New_def split: prod.splits option.splits if_splits)

theorem New_error_or_plugin_witness:
  "snd ((\<lambda>c h. (0::nat, Some (Errorf ''no client''))) 
        \<lparr>ScoringStrategy = \<lparr>Type = LeastNUMANodes, Resources' = []\<rparr>\<rparr> ()) = Some (Errorf ''no client'') \<and>
   New (\<lambda>c h. (0::nat, Some (Errorf ''no client''))) (\<lambda>t. (0::nat, None))
       (\<lambda>s w. [(BestEffortPodLevel, OtherScoringFn s)]) ()
       (Args \<lparr>ScoringStrategy = \<lparr>Type = LeastNUMANodes, Resources' = []\<rparr>\<rparr>) () =
     (None, Some (Errorf ''no client'')) \<and>
   snd ((\<lambda>c h. (0::nat, None))
        \<lparr>ScoringStrategy = \<lparr>Type = OtherStrategyType ''Bogus'', Resources' = []\<rparr>\<rparr> ()) = None \<and>
   Type (ScoringStrategy \<lparr>ScoringStrategy = \<lparr>Type = OtherStrategyType ''Bogus'', Resources' = []\<rparr>\<rparr>)
     \<noteq> LeastNUMANodes \<and>
   snd ((\<lambda>t. (0::nat, Some (Errorf ''illegal scoring strategy found'')))
     (Type (ScoringStrategy \<lparr>ScoringStrategy = \<lparr>Type = OtherStrategyType ''Bogus'', Resources' = []\<rparr>\<rparr>)))
     = Some (Errorf ''illegal scoring strategy found'') \<and>
   New (\<lambda>c h. (0::nat, None)) (\<lambda>t. (0::nat, Some (Errorf ''illegal scoring strategy found'')))
       (\<lambda>s w. [(BestEffortPodLevel, OtherScoringFn s)]) ()
       (Args \<lparr>ScoringStrategy = \<lparr>Type = OtherStrategyType ''Bogus'', Resources' = []\<rparr>\<rparr>) () =
     (None, Some (Errorf ''illegal scoring strategy found'')) \<and>
   fst (New (\<lambda>c h. (7::nat, None)) (\<lambda>t. (0::nat, None))
       (\<lambda>s w. [(BestEffortPodLevel, OtherScoringFn s)]) ()
       (Args \<lparr>ScoringStrategy = \<lparr>Type = LeastNUMANodes, Resources' = []\<rparr>\<rparr>) ()) =
     Some \<lparr>filterHandlers = (), scoringHandlers = leastNUMAscoreHandlers,
           resourceToWeightMap = Map.empty, nrtCache = 7\<rparr> \<and>
   nrtCache \<lparr>filterHandlers = (), scoringHandlers = leastNUMAscoreHandlers :: nat scoreHandlersMap,
           resourceToWeightMap = Map.empty, nrtCache = 7::nat\<rparr> = 
     fst ((\<lambda>c h. (7::nat, None :: error option))
        \<lparr>ScoringStrategy = \<lparr>Type = LeastNUMANodes, Resources' = []\<rparr>\<rparr> ())"
proof -
  let ?c1 = "\<lparr>ScoringStrategy = \<lparr>Type = LeastNUMANodes, Resources' = []\<rparr>\<rparr>"
  let ?c2 = "\<lparr>ScoringStrategy = \<lparr>Type = OtherStrategyType ''Bogus'', Resources' = []\<rparr>\<rparr>"
  let ?S = "\<lambda>(s::nat) (w::resourceToWeightMap). [(BestEffortPodLevel, OtherScoringFn s)]"
  let ?I1 = "\<lambda>(c::NodeResourceTopologyMatchArgs) (h::unit). (0::nat, Some (Errorf ''no client''))"
  let ?I2 = "\<lambda>(c::NodeResourceTopologyMatchArgs) (h::unit). (0::nat, None :: error option)"
  let ?I3 = "\<lambda>(c::NodeResourceTopologyMatchArgs) (h::unit). (7::nat, None :: error option)"
  let ?G1 = "\<lambda>t::ScoringStrategyType. (0::nat, None :: error option)"
  let ?G2 = "\<lambda>t::ScoringStrategyType. (0::nat, Some (Errorf ''illegal scoring strategy found''))"
  let ?tm = "\<lparr>filterHandlers = (), scoringHandlers = leastNUMAscoreHandlers :: nat scoreHandlersMap,
           resourceToWeightMap = Map.empty, nrtCache = 7::nat\<rparr>"
  have h1: "snd (?I1 ?c1 ()) = Some (Errorf ''no client'')" by simp
  have h2: "snd (?I2 ?c2 ()) = None" "Type (ScoringStrategy ?c2) \<noteq> LeastNUMANodes"
    "snd (?G2 (Type (ScoringStrategy ?c2))) = Some (Errorf ''illegal scoring strategy found'')"
    by simp_all
  have h3: "fst (New ?I3 ?G1 ?S () (Args ?c1) ()) = Some ?tm"
    by (simp add: New_def resToWeightMap_def)
  from New_error_or_plugin[where I="?I1" and tcfg="?c1" and h="()" and err="Errorf ''no client''"
      and G="?G1" and S="?S" and F="()"] h1
  have a: "New ?I1 ?G1 ?S () (Args ?c1) () = (None, Some (Errorf ''no client''))" by blast
  from New_error_or_plugin[where I="?I2" and tcfg="?c2" and h="()"
      and err="Errorf ''illegal scoring strategy found''" and G="?G2" and S="?S" and F="()"] h2
  have b: "New ?I2 ?G2 ?S () (Args ?c2) () = (None, Some (Errorf ''illegal scoring strategy found''))"
    by blast
  from New_error_or_plugin[where I="?I3" and G="?G1" and S="?S" and F="()" and args="Args ?c1"
      and h="()" and tm="?tm"] h3
  have c: "nrtCache ?tm = fst (?I3 ?c1 ())" by auto
  show ?thesis using h1 h2 h3 a b c by simp
qed

text \<open>
  Claim C9, the scoring strategy. When construction gets past the informer: with the
  strategy type \<open>LeastNUMANodes\<close> the plugin's scoring handlers are
  \<open>leastNUMAscoreHandlers\<close>, whatever resources and weights the configuration lists;
  with another type for which \<open>getScoringStrategyFunction\<close> returns \<open>strategy\<close>, they are
  \<open>newScoringHandlers strategy resToWeightMap\<close>. The weight map has one entry for each
  name listed; a name listed more than once keeps the weight listed last, and when no name
  is listed twice every listed resource has its own weight in the map. A scoring request
  dispatches through the handlers of the plugin and returns the plugin as it was, so after
  any sequence of requests the handlers are those chosen at construction.
\<close>

theorem New_scoring_strategy:
  "(snd (I tcfg h) = None \<and> Type (ScoringStrategy tcfg) = LeastNUMANodes \<longrightarrow>
      (\<exists>tm. New I G S F (Args tcfg) h = (Some tm, None) \<and>
            scoringHandlers tm = leastNUMAscoreHandlers)) \<and>
   (snd (I tcfg h) = None \<and> Type (ScoringStrategy tcfg) \<noteq> LeastNUMANodes \<and>
    G (Type (ScoringStrategy tcfg)) = (strategy, None) \<longrightarrow>
      (\<exists>tm. New I G S F (Args tcfg) h = (Some tm, None) \<and>
            scoringHandlers tm = S strategy (resToWeightMap (Resources' (ScoringStrategy tcfg))))) \<and>
   dom (resToWeightMap rs) = Name ` set rs \<and>
   resToWeightMap rs = map_of (rev (map (\<lambda>x. (Name x, Weight x)) rs)) \<and>
   (distinct (map Name rs) \<and> x \<in> set rs \<longrightarrow> resToWeightMap rs (Name x) = Some (Weight x)) \<and>
   fst (Score call p policy workload) =
     (case map_of (scoringHandlers p) policy of
        None \<Rightarrow> InternalError | Some fn \<Rightarrow> Scored (call fn workload)) \<and>
   snd (Score call p policy workload) = p \<and>
   scoringHandlers (serve call p requests) = scoringHandlers p"
proof -
  have a: "\<exists>tm. New I G S F (Args tcfg) h = (Some tm, None) \<and>
            scoringHandlers tm = leastNUMAscoreHandlers"
    if "snd (I tcfg h) = None" "Type (ScoringStrategy tcfg) = LeastNUMANodes"
    using that by (auto simp add: New_def split: prod.splits option.splits)
  have b: "\<exists>tm. New I G S F (Args tcfg) h = (Some tm, None) \<and>
            scoringHandlers tm = S strategy (resToWeightMap (Resources' (ScoringStrategy tcfg)))"
    if "snd (I tcfg h) = None" "Type (ScoringStrategy tcfg) \<noteq> LeastNUMANodes"
      "G (Type (ScoringStrategy tcfg)) = (strategy, None)"
    using that by (auto simp add: New_def split: prod.splits option.splits)
  have c: "fst (Score call p policy workload) =
     (case map_of (scoringHandlers p) policy of
        None \<Rightarrow> InternalError | Some fn \<Rightarrow> Scored (call fn workload))"
    "snd (Score call p policy workload) = p"
    by (simp_all add: Score_def split: option.splits)
  have d: "scoringHandlers (serve call p requests) = scoringHandlers p"
    by (simp add: serve_same)
  show ?thesis
    using a b c d resToWeightMap_dom[of rs] resToWeightMap_map_of[of rs]
      resToWeightMap_distinct[of rs x]
    by blast
qed

theorem New_scoring_strategy_witness:
  "snd ((\<lambda>c h. (7::nat, None))
      \<lparr>ScoringStrategy = \<lparr>Type = LeastNUMANodes,
         Resources' = [\<lparr>Name = ''cpu'', Weight = 2\<rparr>]\<rparr>\<rparr> ()) = (None :: error option) \<and>
   Type (ScoringStrategy \<lparr>ScoringStrategy = \<lparr>Type = LeastNUMANodes,
         Resources' = [\<lparr>Name = ''cpu'', Weight = 2\<rparr>]\<rparr>\<rparr>) = LeastNUMANodes \<and>
   fst (New (\<lambda>c h. (7::nat, None)) (\<lambda>t. (3::nat, None))
       (\<lambda>s w. [(BestEffortPodLevel, OtherScoringFn s)]) ()
       (Args \<lparr>ScoringStrategy = \<lparr>Type = LeastNUMANodes,
         Resources' = [\<lparr>Name = ''cpu'', Weight = 2\<rparr>]\<rparr>\<rparr>) ()) =
     Some \<lparr>filterHandlers = (), scoringHandlers = leastNUMAscoreHandlers,
           resourceToWeightMap = [''cpu'' \<mapsto> 2], nrtCache = 7\<rparr> \<and>
   Type (ScoringStrategy \<lparr>ScoringStrategy = \<lparr>Type = OtherStrategyType ''MostAllocated'',
         Resources' = [\<lparr>Name = ''cpu'', Weight = 2\<rparr>]\<rparr>\<rparr>) \<noteq> LeastNUMANodes \<and>
   (\<lambda>t. (3::nat, None :: error option))
     (Type (ScoringStrategy \<lparr>ScoringStrategy = \<lparr>Type = OtherStrategyType ''MostAllocated'',
         Resources' = [\<lparr>Name = ''cpu'', Weight = 2\<rparr>]\<rparr>\<rparr>)) = (3, None) \<and>
   fst (New (\<lambda>c h. (7::nat, None)) (\<lambda>t. (3::nat, None))
       (\<lambda>s w. [(BestEffortPodLevel, OtherScoringFn s)]) ()
       (Args \<lparr>ScoringStrategy = \<lparr>Type = OtherStrategyType ''MostAllocated'',
         Resources' = [\<lparr>Name = ''cpu'', Weight = 2\<rparr>]\<rparr>\<rparr>) ()) =
     Some \<lparr>filterHandlers = (), scoringHandlers = [(BestEffortPodLevel, OtherScoringFn 3)],
           resourceToWeightMap = [''cpu'' \<mapsto> 2], nrtCache = 7\<rparr> \<and>
   distinct (map Name [\<lparr>Name = ''cpu'', Weight = 2\<rparr>]) \<and>
   \<lparr>Name = ''cpu'', Weight = 2\<rparr> \<in> set [\<lparr>Name = ''cpu'', Weight = 2\<rparr>] \<and>
   resToWeightMap [\<lparr>Name = ''cpu'', Weight = 2\<rparr>] ''cpu'' = Some 2"
proof -
  let ?rs = "[\<lparr>Name = ''cpu'', Weight = 2\<rparr>]"
  let ?c1 = "\<lparr>ScoringStrategy = \<lparr>Type = LeastNUMANodes, Resources' = ?rs\<rparr>\<rparr>"
  let ?c2 = "\<lparr>ScoringStrategy = \<lparr>Type = OtherStrategyType ''MostAllocated'', Resources' = ?rs\<rparr>\<rparr>"
  let ?S = "\<lambda>(s::nat) (w::resourceToWeightMap). [(BestEffortPodLevel, OtherScoringFn s)]"
  let ?I = "\<lambda>(c::NodeResourceTopologyMatchArgs) (h::unit). (7::nat, None :: error option)"
  let ?G = "\<lambda>t::ScoringStrategyType. (3::nat, None :: error option)"
  let ?call = "\<lambda>(f::nat scoringFn) (w::unit). (0::nat)"
  let ?p = "\<lparr>filterHandlers = (), scoringHandlers = leastNUMAscoreHandlers :: nat scoreHandlersMap,
            resourceToWeightMap = [''cpu'' \<mapsto> 2], nrtCache = 7::nat\<rparr>"
  have h1: "snd (?I ?c1 ()) = None" "Type (ScoringStrategy ?c1) = LeastNUMANodes" by simp_all
  have h2: "snd (?I ?c2 ()) = None" "Type (ScoringStrategy ?c2) \<noteq> LeastNUMANodes"
    "?G (Type (ScoringStrategy ?c2)) = (3, None)" by simp_all
  have h3: "distinct (map Name ?rs)" "\<lparr>Name = ''cpu'', Weight = 2\<rparr> \<in> set ?rs" by simp_all
  have w: "resToWeightMap ?rs = [''cpu'' \<mapsto> 2]" by (simp add: resToWeightMap_def)
  note t1 = New_scoring_strategy[where I="?I" and tcfg="?c1" and h="()" and G="?G" and S="?S"
      and F="()" and strategy=3 and rs="?rs" and x="\<lparr>Name = ''cpu'', Weight = 2\<rparr>"
      and call="?call" and p="?p" and policy=BestEffortPodLevel and workload="()" and requests="[]"]
  from t1 h1
  obtain tm1 where a: "New ?I ?G ?S () (Args ?c1) () = (Some tm1, None)"
    "scoringHandlers tm1 = leastNUMAscoreHandlers" by blast
  from New_scoring_strategy[where I="?I" and tcfg="?c2" and h="()" and G="?G" and S="?S" and F="()"
      and strategy=3 and rs="?rs" and x="\<lparr>Name = ''cpu'', Weight = 2\<rparr>"
      and call="?call" and p="?p" and policy=BestEffortPodLevel and workload="()" and requests="[]"] h2
  obtain tm2 where b: "New ?I ?G ?S () (Args ?c2) () = (Some tm2, None)"
    "scoringHandlers tm2 = ?S 3 (resToWeightMap (Resources' (ScoringStrategy ?c2)))" by blast
  from t1 h3
  have c: "resToWeightMap ?rs ''cpu'' = Some 2" by simp
  have a': "fst (New ?I ?G ?S () (Args ?c1) ()) =
     Some \<lparr>filterHandlers = (), scoringHandlers = leastNUMAscoreHandlers,
           resourceToWeightMap = [''cpu'' \<mapsto> 2], nrtCache = 7\<rparr>"
    using a w by (simp add: New_def)
  have b': "fst (New ?I ?G ?S () (Args ?c2) ()) =
     Some \<lparr>filterHandlers = (), scoringHandlers = [(BestEffortPodLevel, OtherScoringFn 3)],
           resourceToWeightMap = [''cpu'' \<mapsto> 2], nrtCache = 7\<rparr>"
    using b w by (simp add: New_def)
  show ?thesis using h1 h2 h3 a' b' c by simp
qed

text \<open>
  As stated, with one entry per resource listed, C9 fails when a name is listed twice:
  for \<open>cpu\<close> with weight 2 and \<open>cpu\<close> with weight 5 the map holds the one entry
  \<open>cpu\<close> with 5, and the listed weight 2 is not in it.
\<close>

theorem New_scoring_strategy_counterexample:
  "\<lparr>Name = ''cpu'', Weight = 2\<rparr> \<in> set [\<lparr>Name = ''cpu'', Weight = 2\<rparr>, \<lparr>Name = ''cpu'', Weight = 5\<rparr>] \<and>
   resToWeightMap [\<lparr>Name = ''cpu'', Weight = 2\<rparr>, \<lparr>Name = ''cpu'', Weight = 5\<rparr>]
     (Name \<lparr>Name = ''cpu'', Weight = 2\<rparr>) \<noteq> Some (Weight \<lparr>Name = ''cpu'', Weight = 2\<rparr>) \<and>
   resToWeightMap [\<lparr>Name = ''cpu'', Weight = 2\<rparr>, \<lparr>Name = ''cpu'', Weight = 5\<rparr>] = [''cpu'' \<mapsto> 5] \<and>
   fst (New (\<lambda>c h. (7::nat, None)) (\<lambda>t. (3::nat, None))
       (\<lambda>s w. [(BestEffortPodLevel, OtherScoringFn s)]) ()
       (Args \<lparr>ScoringStrategy = \<lparr>Type = OtherStrategyType ''MostAllocated'',
         Resources' = [\<lparr>Name = ''cpu'', Weight = 2\<rparr>, \<lparr>Name = ''cpu'', Weight = 5\<rparr>]\<rparr>\<rparr>) ()) =
     Some \<lparr>filterHandlers = (), scoringHandlers = [(BestEffortPodLevel, OtherScoringFn 3)],
           resourceToWeightMap = [''cpu'' \<mapsto> 5], nrtCache = 7\<rparr>"
proof -
  have w: "resToWeightMap [\<lparr>Name = ''cpu'', Weight = 2\<rparr>, \<lparr>Name = ''cpu'', Weight = 5\<rparr>] =
      [''cpu'' \<mapsto> 5]"
    by (simp add: resToWeightMap_def)
  then show ?thesis by (simp add: New_def)
qed

text \<open>
  Claim C10, indexing. The scan looks up \<open>numaNodes[node]\<close> with no check of its own.
  When every listed id is an index of the inventory, the call does not panic. For an id that
  is not, the lookup fails; the scan panics there when the quantity it has reached that id
  with is not zero, and so does a call whose first kind and first id are these.
\<close>

theorem subtractFromNUMAs_bounds:
  "(validOrder ns order \<longrightarrow> fst (subtractFromNUMAs dec rs ns order) = None) \<and>
   (\<not> (0 \<le> node \<and> node < int (length ns)) \<longrightarrow>
      index ns node = None \<and>
      (\<not> IsZero quantity \<longrightarrow>
         nodesLoop resName quantity ns (node # rest) =
           (Some (IndexOutOfRange node (length ns)), quantity, ns) \<and>
         fst (subtractFromNUMAs dec ((resName, quantity) # rs) ns (node # rest)) =
           Some (IndexOutOfRange node (length ns))))"
proof -
  have "fst (subtractFromNUMAs dec rs ns order) = None" if "validOrder ns order"
    using that by (simp add: subtractFromNUMAs_def resourcesLoop_no_panic)
  moreover have "index ns node = None" if "\<not> (0 \<le> node \<and> node < int (length ns))"
    using that by (auto simp: index_def)
  moreover have "nodesLoop resName quantity ns (node # rest) =
      (Some (IndexOutOfRange node (length ns)), quantity, ns)"
    if "\<not> (0 \<le> node \<and> node < int (length ns))" "\<not> IsZero quantity"
    using that by (intro nodesLoop_invalid) (auto simp: IsZero_def)
  ultimately show ?thesis
    by (simp add: subtractFromNUMAs_def resourcesLoop.simps)
qed

theorem subtractFromNUMAs_bounds_witness:
  "validOrder [\<lparr>NUMAID = 0, Resources = [(''cpu'', 4)]\<rparr>] [0, 0] \<and>
   fst (subtractFromNUMAs (\<lambda>r. False) [(''cpu'', 6)] [\<lparr>NUMAID = 0, Resources = [(''cpu'', 4)]\<rparr>] [0, 0]) = None \<and>
   \<not> (0 \<le> (1::int) \<and> 1 < int (length [\<lparr>NUMAID = 0, Resources = [(''cpu'', 4)]\<rparr>])) \<and>
   \<not> IsZero 6 \<and>
   index [\<lparr>NUMAID = 0, Resources = [(''cpu'', 4)]\<rparr>] 1 = None \<and>
   fst (subtractFromNUMAs (\<lambda>r. False) [(''cpu'', 6)] [\<lparr>NUMAID = 0, Resources = [(''cpu'', 4)]\<rparr>] [1, 0]) =
     Some (IndexOutOfRange 1 1)"
proof -
  let ?ns = "[\<lparr>NUMAID = 0, Resources = [(''cpu'', 4::int)]\<rparr>]"
  have h1: "validOrder ?ns [0, 0]" by (simp add: validOrder_def)
  have h2: "\<not> (0 \<le> (1::int) \<and> 1 < int (length ?ns))" by simp
  have h3: "\<not> IsZero 6" by (simp add: IsZero_def)
  have l: "length ?ns = 1" by simp
  from subtractFromNUMAs_bounds[where ns="?ns" and order="[0, 0]" and rs="[(''cpu'', 6)]"
      and dec="\<lambda>r. False"] h1
  have a: "fst (subtractFromNUMAs (\<lambda>r. False) [(''cpu'', 6)] ?ns [0, 0]) = None" by blast
  from subtractFromNUMAs_bounds[where ns="?ns" and node=1 and quantity=6 and resName="''cpu''"
      and rest="[0]" and rs="[]" and dec="\<lambda>r. False"] h2 h3
  have b: "index ?ns 1 = None"
    and c: "fst (subtractFromNUMAs (\<lambda>r. False) [(''cpu'', 6)] ?ns [1, 0]) = Some (IndexOutOfRange 1 (length ?ns))"
    by blast+
  show ?thesis using h1 h2 h3 a b c unfolding l by blast
qed

end
